theory Spec2Isabelle
  imports Complex_Main "HOL-Library.Log_Nat" "HOL-Library.AList"
begin

section \<open>Strings and the two regular expressions of \<open>App.jsx\<close>\<close>

text \<open>
  JavaScript strings are modelled as \<open>string\<close>.  The only string operations of the
  component are template concatenation, \<open>RegExp.test\<close> and \<open>String.replace\<close> with the
  case-insensitive patterns \<^verbatim>\<open>/^image\/(jpeg|jpg)$/i\<close> and \<^verbatim>\<open>/\.(jpe?g)$/i\<close>.
  A pattern is a value of \<open>regex\<close>; \<open>rmatch r s\<close> lists, in backtracking order, what is
  left of \<open>s\<close> after each way of matching \<open>r\<close> at its start.  With the \<open>i\<close> flag both
  sides are canonicalised (upper-cased); every pattern character is ASCII, and
  canonicalisation never maps a non-ASCII character to an ASCII one, so upper-casing
  the ASCII letters is all that matters.
\<close>

definition canonicalize :: "char \<Rightarrow> char" where
  "canonicalize c =
     (case c of Char b0 b1 b2 b3 b4 b5 b6 b7 \<Rightarrow>
        if 97 \<le> (of_char c :: int) \<and> (of_char c :: int) \<le> 122
        then Char b0 b1 b2 b3 b4 False b6 b7 else c)"

datatype regex = Eps | Chr char | Seq regex regex | Alt regex regex | Opt regex

fun rmatch :: "regex \<Rightarrow> string \<Rightarrow> string list" where
  "rmatch Eps s = [s]"
| "rmatch (Chr c) s =
     (case s of [] \<Rightarrow> [] | x # xs \<Rightarrow> if canonicalize x = canonicalize c then [xs] else [])"
| "rmatch (Seq a b) s = concat (map (rmatch b) (rmatch a s))"
| "rmatch (Alt a b) s = rmatch a s @ rmatch b s"
| "rmatch (Opt a) s = rmatch a s @ [s]"

fun lit :: "string \<Rightarrow> regex" where
  "lit [] = Eps"
| "lit (c # cs) = Seq (Chr c) (lit cs)"

text \<open>\<open>match_to_end r s\<close>: the pattern \<open>r$\<close> matches at the start of \<open>s\<close>.\<close>

definition match_to_end :: "regex \<Rightarrow> string \<Rightarrow> bool" where
  "match_to_end r s = ([] \<in> set (rmatch r s))"

text \<open>\<open>search_end r s\<close>: the leftmost position where \<open>r$\<close> matches, as \<open>RegExp.exec\<close> finds it.\<close>

definition search_end :: "regex \<Rightarrow> string \<Rightarrow> nat option" where
  "search_end r s = find (\<lambda>i. match_to_end r (drop i s)) [0 ..< Suc (length s)]"

text \<open>\<^verbatim>\<open>/^image\/(jpeg|jpg)$/i\<close>\<close>

definition jpeg_type_re :: regex where
  "jpeg_type_re = Seq (lit ''image/'') (Alt (lit ''jpeg'') (lit ''jpg''))"

text \<open>\<^verbatim>\<open>/\.(jpe?g)$/i\<close>\<close>

definition jpeg_ext_re :: regex where
  "jpeg_ext_re = Seq (Chr CHR ''.'') (Seq (lit ''jp'') (Seq (Opt (Chr CHR ''e'')) (Chr CHR ''g'')))"

text \<open>\<^verbatim>\<open>/^image\/(jpeg|jpg)$/i.test(t)\<close>\<close>

definition test_jpeg_type :: "string \<Rightarrow> bool" where
  "test_jpeg_type t = match_to_end jpeg_type_re t"

text \<open>\<^verbatim>\<open>/\.(jpe?g)$/i.test(n)\<close>\<close>

definition test_jpeg_ext :: "string \<Rightarrow> bool" where
  "test_jpeg_ext n = (search_end jpeg_ext_re n \<noteq> None)"

text \<open>\<^verbatim>\<open>n.replace(/\.(jpe?g)$/i, '')\<close>: the match reaches the end of \<open>n\<close>, so what is kept is
  the part before it.\<close>

definition replace_jpeg_ext :: "string \<Rightarrow> string" where
  "replace_jpeg_ext n = (case search_end jpeg_ext_re n of None \<Rightarrow> n | Some i \<Rightarrow> take i n)"

text \<open>Decimal rendering of numbers inside template strings.  The numbers rendered are
  file sizes, modification times and counters, all safe integers
  (\<open>Number.isSafeInteger\<close>), for which a template string prints the exact decimal digits.
  An integer Number beyond \<open>2^53\<close> would print its shortest round-trip digits instead; that
  range is outside this model.\<close>

function digits_of :: "int \<Rightarrow> string" where
  "digits_of n =
     (if n < 10 then [''0123456789'' ! nat n]
      else digits_of (n div 10) @ [''0123456789'' ! nat (n mod 10)])"
  by pat_completeness auto
termination
  by (relation "measure nat") auto

declare digits_of.simps [simp del]

definition string_of_int :: "int \<Rightarrow> string" where
  "string_of_int i = (if i < 0 then CHR ''-'' # digits_of (- i) else digits_of i)"

definition string_of_nat :: "nat \<Rightarrow> string" where
  "string_of_nat n = digits_of (int n)"

text \<open>Words of the specification: two strings are equal, or one ends with the other,
  when the case of ASCII letters is ignored.\<close>

definition eq_ignoring_case :: "string \<Rightarrow> string \<Rightarrow> bool" where
  "eq_ignoring_case a b = (map canonicalize a = map canonicalize b)"

definition ends_with_ignoring_case :: "string \<Rightarrow> string \<Rightarrow> bool" where
  "ends_with_ignoring_case s w =
     (length w \<le> length s \<and> eq_ignoring_case (drop (length s - length w) s) w)"


section \<open>Numbers\<close>

text \<open>
  A JavaScript Number is an IEEE 754 binary64 value.  The finite ones are modelled by the
  rationals they denote, \<open>+Infinity\<close> by \<open>PInf\<close>; \<open>NaN\<close> and negative infinities never
  arise in \<open>convertItem\<close>.  \<open>fl\<close> rounds a rational to the nearest value with a 53-bit
  significand, ties to even, as every arithmetic operation of the language does.
  Overflow and subnormal numbers are not modelled: the integers the component computes
  with are pixel counts, and the theorems below bound them far inside the normal range.
\<close>

datatype jsnum = Fin rat | PInf

definition pow2 :: "int \<Rightarrow> rat" where
  "pow2 k = (if 0 \<le> k then 2 ^ nat k else 1 / 2 ^ nat (- k))"

text \<open>\<open>ilog2 x\<close> is the integer \<open>e\<close> with \<open>2^e \<le> x < 2^(e+1)\<close>, for \<open>x > 0\<close>.\<close>

definition ilog2 :: "rat \<Rightarrow> int" where
  "ilog2 x = (if 1 \<le> x then bitlen \<lfloor>x\<rfloor> - 1 else - bitlen (\<lceil>1 / x\<rceil> - 1))"

definition round_half_even :: "rat \<Rightarrow> int" where
  "round_half_even x =
     (let f = \<lfloor>x\<rfloor>; d = x - of_int f
      in if d < 1 / 2 then f else if 1 / 2 < d then f + 1 else if even f then f else f + 1)"

definition fl :: "rat \<Rightarrow> rat" where
  "fl x =
     (if x = 0 then 0
      else let u = pow2 (ilog2 \<bar>x\<bar> - 52) in of_int (round_half_even (x / u)) * u)"

text \<open>\<open>a / b\<close> for integers \<open>a > 0\<close> (both call sites guard the numerator): a zero
  divisor gives \<open>Infinity\<close>.\<close>

definition js_div :: "int \<Rightarrow> int \<Rightarrow> jsnum" where
  "js_div a b = (if b = 0 then PInf else Fin (fl (of_int a / of_int b)))"

definition js_mul :: "rat \<Rightarrow> rat \<Rightarrow> rat" where
  "js_mul a b = fl (a * b)"

text \<open>\<open>Math.min\<close> on two Numbers, and \<open>Math.round\<close>: the nearest integer, a tie going up.\<close>

fun js_min :: "jsnum \<Rightarrow> jsnum \<Rightarrow> jsnum" where
  "js_min (Fin a) (Fin b) = Fin (min a b)"
| "js_min (Fin a) PInf = Fin a"
| "js_min PInf b = b"

definition js_round :: "rat \<Rightarrow> int" where
  "js_round x = \<lfloor>x + 1 / 2\<rfloor>"

text \<open>\<open>Number.isSafeInteger\<close>: the integers every one of which is a Number.\<close>

definition isSafeInteger :: "int \<Rightarrow> bool" where
  "isSafeInteger n = (\<bar>n\<bar> \<le> 2 ^ 53 - 1)"

section \<open>Data model\<close>

text \<open>
  A \<open>File\<close> of the browser: its name, declared media type, byte size and modification
  time, and, standing for its bytes, the pixel dimensions an \<open>Image\<close> element reports
  after decoding them (\<open>None\<close> when they do not decode).
\<close>

record File =
  name :: string
  type_f :: string
  size_f :: int
  lastModified :: int
  image :: "(int \<times> int) option"

datatype status = Idle | Converting | Done | Error

text \<open>The item objects of the \<open>files\<close> state: \<^verbatim>\<open>{ id, file, previewUrl, pngUrl, status, error, width, height }\<close>.
  The empty string is the falsy "no URL" and "no message".\<close>

record item =
  id_it :: string
  file_it :: File
  previewUrl :: string
  pngUrl :: string
  status :: status
  error_it :: string
  width :: int
  height :: int

datatype format = Png | Webp | Jpeg

datatype fit = Contain | Stretch

text \<open>What an object URL can refer to: a selected file, an encoded canvas (media type,
  quality argument, width, height), or a generated archive (entry names and contents).\<close>

datatype blob =
  FileBlob File
| ImageBlob string "rat option" int int
| ZipBlob "(string \<times> blob) list"

text \<open>
  The state: the \<open>useState\<close> cells of \<open>App\<close>, the value of the hidden file input, and
  the part of the browser the component acts on: the blob URL store (\<open>objects\<close>, oldest
  first), the log of \<open>URL.revokeObjectURL\<close> calls, the number of URLs minted and of random
  numbers drawn, the canvases allocated, and the downloads triggered through an anchor
  (file name, URL).
\<close>

record state =
  files :: "item list"
  isConvertingAll :: bool
  error :: string
  input_value :: string
  outputFormat :: format
  quality :: rat
  maxWidth :: int
  maxHeight :: int
  fitMode :: fit
  keepAspect :: bool
  objects :: "(string \<times> blob) list"
  revoked :: "string list"
  url_count :: nat
  rand_count :: nat
  canvases :: "(int \<times> int) list"
  downloads :: "(string \<times> string) list"

text \<open>
  What the component cannot decide: \<open>random_suffix n\<close> is the text
  \<^verbatim>\<open>Math.random().toString(36).slice(2,8)\<close> of the \<open>n\<close>-th draw, and \<open>toBlob w h mime q\<close>
  tells whether \<open>canvas.toBlob\<close> hands a blob (rather than \<open>null\<close>) to its callback for
  a canvas of that size.
\<close>

record env =
  random_suffix :: "nat \<Rightarrow> string"
  toBlob :: "int \<Rightarrow> int \<Rightarrow> string \<Rightarrow> rat option \<Rightarrow> bool"

datatype failure = DecodeError | EncodeError | FetchError

definition MAX_FILES :: nat where
  "MAX_FILES = 20"

definition MAX_SIZE_MB :: int where
  "MAX_SIZE_MB = 50"

definition init :: state where
  "init = \<lparr> files = [], isConvertingAll = False, error = [], input_value = [],
            outputFormat = Png, quality = fl (9 / 10), maxWidth = 0, maxHeight = 0,
            fitMode = Contain, keepAspect = True,
            objects = [], revoked = [], url_count = 0, rand_count = 0, canvases = [],
            downloads = [] \<rparr>"

section \<open>Browser operations\<close>

definition createObjectURL :: "blob \<Rightarrow> state \<Rightarrow> string \<times> state" where
  "createObjectURL b s =
     (let url = ''blob:'' @ string_of_nat (url_count s)
      in (url, s\<lparr>objects := objects s @ [(url, b)], url_count := Suc (url_count s)\<rparr>))"

definition revokeObjectURL :: "string \<Rightarrow> state \<Rightarrow> state" where
  "revokeObjectURL u s =
     s\<lparr>objects := filter (\<lambda>kv. fst kv \<noteq> u) (objects s), revoked := revoked s @ [u]\<rparr>"

definition random_id :: "env \<Rightarrow> state \<Rightarrow> string \<times> state" where
  "random_id e s = (random_suffix e (rand_count s), s\<lparr>rand_count := Suc (rand_count s)\<rparr>)"

text \<open>Loading \<open>img.src = url\<close>: \<open>onload\<close> with the natural size, or \<open>onerror\<close>.\<close>

definition load_image :: "state \<Rightarrow> string \<Rightarrow> (int \<times> int) option" where
  "load_image s url =
     (case map_of (objects s) url of
        None \<Rightarrow> None
      | Some (FileBlob f) \<Rightarrow> image f
      | Some (ImageBlob m q w h) \<Rightarrow> Some (w, h)
      | Some (ZipBlob z) \<Rightarrow> None)"

section \<open>Validator and item intake: \<open>createItem\<close>, \<open>onSelectFiles\<close>\<close>

definition createItem :: "env \<Rightarrow> File \<Rightarrow> state \<Rightarrow> item \<times> state" where
  "createItem e f s =
     (let (objectUrl, s1) = createObjectURL (FileBlob f) s;
          (rnd, s2) = random_id e s1
      in (\<lparr> id_it = name f @ ''-'' @ string_of_int (size_f f) @ ''-''
                   @ string_of_int (lastModified f) @ ''-'' @ rnd,
             file_it = f, previewUrl = objectUrl, pngUrl = [], status = Idle, error_it = [],
             width = 0, height = 0 \<rparr>, s2))"

text \<open>\<open>toAdd.map(createItem)\<close>, the browser state threaded from left to right.\<close>

fun createItems :: "env \<Rightarrow> File list \<Rightarrow> state \<Rightarrow> item list \<times> state" where
  "createItems e [] s = ([], s)"
| "createItems e (f # fs) s =
     (let (it, s1) = createItem e f s; (its, s2) = createItems e fs s1 in (it # its, s2))"

text \<open>The loop of \<open>onSelectFiles\<close> that pushes the accepted files onto \<open>valid\<close>.\<close>

fun collect_valid :: "File list \<Rightarrow> File list \<Rightarrow> File list" where
  "collect_valid [] valid = valid"
| "collect_valid (f # fs) valid =
     (let isJpg = (test_jpeg_type (type_f f) \<or> test_jpeg_ext (name f));
          underSize = (size_f f \<le> MAX_SIZE_MB * 1024 * 1024)
      in collect_valid fs (if isJpg \<and> underSize then valid @ [f] else valid))"

text \<open>\<open>onSelectFiles list\<close>; a \<open>null\<close> list takes the same early return as an empty one.\<close>

definition onSelectFiles :: "env \<Rightarrow> File list \<Rightarrow> state \<Rightarrow> state" where
  "onSelectFiles e list s =
     (let s0 = s\<lparr>error := []\<rparr> in
      if list = [] then s0
      else let valid = collect_valid list [] in
        if valid = []
        then s0\<lparr>error := ''Please choose JPG/JPEG images up to '' @ string_of_int MAX_SIZE_MB
                            @ '' MB each.''\<rparr>
        else let prev = files s0;
                 availableSlots = int MAX_FILES - int (length prev);
                 toAdd = take (nat (max 0 availableSlots)) valid;
                 s1 = (if length toAdd < length valid
                       then s0\<lparr>error := ''Only '' @ string_of_nat MAX_FILES
                                           @ '' images allowed at once.''\<rparr>
                       else s0);
                 (created, s2) = createItems e toAdd s1
             in s2\<lparr>files := prev @ created\<rparr>)"

section \<open>Geometry Resolver: the target size computed in \<open>convertItem\<close>\<close>

text \<open>
  \<open>resolveTarget st srcW srcH\<close> is lines 97 to 116 of \<open>App.jsx\<close>, with the settings read
  from \<open>st\<close>.  \<open>maxWidth\<close> and \<open>maxHeight\<close> hold integers, for which
  \<^verbatim>\<open>Number(maxWidth) || 0\<close> is the value itself.
\<close>

definition resolveTarget :: "state \<Rightarrow> int \<Rightarrow> int \<Rightarrow> int \<times> int" where
  "resolveTarget st srcW srcH =
     (let limitW = maxWidth st; limitH = maxHeight st in
      if fitMode st = Stretch
      then (if 0 < limitW then limitW else srcW, if 0 < limitH then limitH else srcH)
      else if 0 < limitW \<or> 0 < limitH
      then let scaleW = (if 0 < limitW then js_div limitW srcW else PInf);
               scaleH = (if 0 < limitH then js_div limitH srcH else PInf);
               scale = (if keepAspect st then js_min scaleW scaleH else scaleW);
               finalScale = (case scale of Fin q \<Rightarrow> min q 1000000 | PInf \<Rightarrow> 1)
           in (max 1 (js_round (js_mul
                  (of_int (if keepAspect st then srcW else if 0 < limitW then limitW else srcW))
                  finalScale)),
               max 1 (js_round (js_mul
                  (of_int (if keepAspect st then srcH else if 0 < limitH then limitH else srcH))
                  finalScale)))
      else (srcW, srcH))"

section \<open>Converter: \<open>convertItem\<close>, \<open>convertOne\<close>, \<open>convertAll\<close>\<close>

definition mime_of :: "format \<Rightarrow> string" where
  "mime_of f = (if f = Png then ''image/png'' else if f = Webp then ''image/webp'' else ''image/jpeg'')"

definition quality_arg :: "state \<Rightarrow> rat option" where
  "quality_arg st = (if outputFormat st = Png then None else Some (max 0 (min 1 (quality st))))"

text \<open>
  The handlers are closures over the state of the render that created them: \<open>snap\<close> is
  that state (its \<open>files\<close> and settings are what the closure reads), \<open>s\<close> is the state the
  \<open>setFiles\<close> updaters and the browser calls act on.  A handler of a freshly rendered
  page runs with \<open>snap = s\<close>.

  \<open>convertItem\<close> returns the new object URL, or the failure that its rejected promise
  carries.
\<close>

definition convertItem :: "env \<Rightarrow> state \<Rightarrow> item \<Rightarrow> state \<Rightarrow> (failure + string) \<times> state" where
  "convertItem e snap item s =
     (case load_image s (previewUrl item) of
        None \<Rightarrow> (Inl DecodeError, s)
      | Some (srcW, srcH) \<Rightarrow>
          let s1 = s\<lparr>files := map (\<lambda>it. if id_it it = id_it item
                                        then it\<lparr>width := srcW, height := srcH\<rparr> else it) (files s)\<rparr>;
              (targetW, targetH) = resolveTarget snap srcW srcH;
              s2 = s1\<lparr>canvases := canvases s1 @ [(targetW, targetH)]\<rparr>;
              mime = mime_of (outputFormat snap);
              q = quality_arg snap
          in if toBlob e targetW targetH mime q
             then let (url, s3) = createObjectURL (ImageBlob mime q targetW targetH) s2
                  in (Inr url, s3)
             else (Inl EncodeError, s2))"

text \<open>The first statement of \<open>convertOne\<close>; the state it leaves is the one rendered
  while the conversion is awaited.\<close>

definition convertOne_begin :: "string \<Rightarrow> state \<Rightarrow> state" where
  "convertOne_begin i s =
     s\<lparr>files := map (\<lambda>it. if id_it it = i then it\<lparr>status := Converting, error_it := []\<rparr> else it)
                    (files s)\<rparr>"

definition convertOne :: "env \<Rightarrow> state \<Rightarrow> string \<Rightarrow> state \<Rightarrow> state" where
  "convertOne e snap i s =
     (let s1 = convertOne_begin i s in
      case find (\<lambda>f. id_it f = i) (files snap) of
        None \<Rightarrow> s1
      | Some target \<Rightarrow>
          (case convertItem e snap target s1 of
             (Inr url, s2) \<Rightarrow>
               s2\<lparr>files := map (\<lambda>it. if id_it it = i then it\<lparr>pngUrl := url, status := Done\<rparr> else it)
                               (files s2)\<rparr>
           | (Inl err, s2) \<Rightarrow>
               s2\<lparr>files := map (\<lambda>it. if id_it it = i
                                      then it\<lparr>status := Error, error_it := ''Failed to convert''\<rparr>
                                      else it) (files s2)\<rparr>))"

definition convertAll :: "env \<Rightarrow> state \<Rightarrow> state \<Rightarrow> state" where
  "convertAll e snap s =
     (if files snap = [] then s
      else (fold (\<lambda>it t. if pngUrl it = [] then convertOne e snap (id_it it) t else t)
                 (files snap) (s\<lparr>isConvertingAll := True\<rparr>))
           \<lparr>isConvertingAll := False\<rparr>)"

section \<open>Item lifecycle: \<open>moveItem\<close>, \<open>removeOne\<close>, \<open>clearAll\<close>, \<open>reset\<close>\<close>

definition findIndex :: "('a \<Rightarrow> bool) \<Rightarrow> 'a list \<Rightarrow> nat option" where
  "findIndex P xs = (if list_ex P xs then Some (length (takeWhile (\<lambda>x. \<not> P x) xs)) else None)"

definition moveItem :: "string \<Rightarrow> int \<Rightarrow> state \<Rightarrow> state" where
  "moveItem i delta s =
     (let prev = files s in
      case findIndex (\<lambda>f. id_it f = i) prev of
        None \<Rightarrow> s
      | Some index \<Rightarrow>
          let newIndex = nat (min (int (length prev) - 1) (max 0 (int index + delta)));
              item = prev ! index;
              next = take index prev @ drop (Suc index) prev
          in s\<lparr>files := take newIndex next @ [item] @ drop newIndex next\<rparr>)"

definition revokeUrls :: "item \<Rightarrow> state \<Rightarrow> state" where
  "revokeUrls item s =
     (let s1 = (if previewUrl item \<noteq> [] then revokeObjectURL (previewUrl item) s else s)
      in if pngUrl item \<noteq> [] then revokeObjectURL (pngUrl item) s1 else s1)"

definition removeOne :: "string \<Rightarrow> state \<Rightarrow> state" where
  "removeOne i s =
     (let prev = files s;
          s1 = (case find (\<lambda>f. id_it f = i) prev of None \<Rightarrow> s | Some target \<Rightarrow> revokeUrls target s)
      in s1\<lparr>files := filter (\<lambda>f. id_it f \<noteq> i) prev\<rparr>)"



section \<open>Archiver and download names\<close>

definition ext_of :: "format \<Rightarrow> string" where
  "ext_of f = (if f = Png then ''png'' else if f = Webp then ''webp'' else ''jpg'')"

text \<open>\<^verbatim>\<open>it.file.name.replace(/\.(jpe?g)$/i, '') || 'image'\<close>\<close>

definition stem_of :: "item \<Rightarrow> string" where
  "stem_of it = (let r = replace_jpeg_ext (name (file_it it)) in if r = [] then ''image'' else r)"

text \<open>The \<open>download\<close> attribute of an item's link (lines 292 and 293).\<close>

definition downloadName :: "state \<Rightarrow> item \<Rightarrow> string" where
  "downloadName st it = stem_of it @ ''.'' @ ext_of (outputFormat st)"

text \<open>The entry name computed in \<open>downloadAllZip\<close> (line 198).\<close>

definition zip_entry_name :: "state \<Rightarrow> item \<Rightarrow> string" where
  "zip_entry_name st it = stem_of it @ ''.png''"

text \<open>The loop of \<open>downloadAllZip\<close>: \<open>fetch\<close> of a URL that is not in the store rejects,
  which ends the handler; \<open>folder.file\<close> replaces an entry of the same name.\<close>

fun zip_entries :: "state \<Rightarrow> state \<Rightarrow> item list \<Rightarrow> (string \<times> blob) list
                      \<Rightarrow> failure + (string \<times> blob) list" where
  "zip_entries snap s [] z = Inr z"
| "zip_entries snap s (it # its) z =
     (if pngUrl it = [] then zip_entries snap s its z
      else case map_of (objects s) (pngUrl it) of
             None \<Rightarrow> Inl FetchError
           | Some b \<Rightarrow> zip_entries snap s its (AList.update (''png/'' @ zip_entry_name snap it) b z))"

definition downloadAllZip :: "state \<Rightarrow> state \<Rightarrow> failure + state" where
  "downloadAllZip snap s =
     (case zip_entries snap s (files snap) [] of
        Inl err \<Rightarrow> Inl err
      | Inr z \<Rightarrow>
          let (url, s1) = createObjectURL (ZipBlob z) s;
              s2 = s1\<lparr>downloads := downloads s1 @ [(''converted_pngs.zip'', url)]\<rparr>
          in Inr (revokeObjectURL url s2))"

section \<open>What the page renders\<close>

datatype control = Hidden | Disabled | Enabled

definition anySelected :: "state \<Rightarrow> bool" where
  "anySelected s = (0 < length (files s))"

definition allConverted :: "state \<Rightarrow> bool" where
  "allConverted s = (0 < length (files s) \<and> list_all (\<lambda>f. pngUrl f \<noteq> []) (files s))"

definition convertedCount :: "state \<Rightarrow> nat" where
  "convertedCount s = length (filter (\<lambda>f. pngUrl f \<noteq> []) (files s))"

text \<open>The per-item \<open>Convert\<close> button of a card (lines 306 to 312); the card is rendered
  for every item of \<open>files\<close>.\<close>

definition convertOne_button :: "state \<Rightarrow> item \<Rightarrow> control" where
  "convertOne_button s it =
     (if pngUrl it = [] then (if status it = Converting then Disabled else Enabled) else Hidden)"

text \<open>The \<open>Convert All\<close> button (lines 342 to 344) and the \<open>Convert & Download All\<close>
  button (lines 351 to 353) of the batch actions.\<close>

definition convertAll_button :: "state \<Rightarrow> control" where
  "convertAll_button s =
     (if anySelected s then (if isConvertingAll s \<or> allConverted s then Disabled else Enabled)
      else Hidden)"

definition convertAndDownload_button :: "state \<Rightarrow> control" where
  "convertAndDownload_button s =
     (if anySelected s \<and> \<not> allConverted s \<and> 0 < length (files s) then Enabled else Hidden)"

section \<open>The specification's wording, and concrete inputs\<close>

text \<open>"Its declared media type or filename extension indicates JPEG and its byte size
  is at most 50 MB."\<close>

definition indicates_jpeg :: "File \<Rightarrow> bool" where
  "indicates_jpeg f =
     (eq_ignoring_case (type_f f) ''image/jpeg'' \<or> eq_ignoring_case (type_f f) ''image/jpg''
      \<or> ends_with_ignoring_case (name f) ''.jpeg'' \<or> ends_with_ignoring_case (name f) ''.jpg'')"

definition spec_admissible :: "File \<Rightarrow> bool" where
  "spec_admissible f = (indicates_jpeg f \<and> size_f f \<le> 50 * 1024 * 1024)"

text \<open>"Scales both axes by the same ratio width-limit/source-width, each result rounded
  to the nearest integer", read in exact arithmetic.\<close>

definition spec_same_ratio :: "int \<Rightarrow> int \<Rightarrow> int \<Rightarrow> int \<times> int" where
  "spec_same_ratio limitW srcW srcH =
     (js_round (of_int srcW * (of_int limitW / of_int srcW)),
      js_round (of_int srcH * (of_int limitW / of_int srcW)))"

text \<open>Whether converting \<open>item\<close> from state \<open>s\<close> fails (in decoding or in encoding).\<close>

definition conversion_fails :: "env \<Rightarrow> state \<Rightarrow> item \<Rightarrow> bool" where
  "conversion_fails e s item = isl (fst (convertItem e s item s))"

text \<open>The updater idiom \<^verbatim>\<open>prev.map((it) => (it.id === id ? g(it) : it))\<close> of the \<open>setFiles\<close> calls.\<close>

definition upd_by_id :: "string \<Rightarrow> (item \<Rightarrow> item) \<Rightarrow> item list \<Rightarrow> item list" where
  "upd_by_id i g xs = map (\<lambda>it. if id_it it = i then g it else it) xs"

text \<open>How the item \<open>b\<close> that a batch run leaves relates to the item \<open>a\<close> it found at the same
  position: untouched when \<open>a\<close> had an output, in error when the conversion of \<open>a\<close> fails,
  done with an output otherwise.\<close>

definition batch_result :: "env \<Rightarrow> state \<Rightarrow> item \<Rightarrow> item \<Rightarrow> bool" where
  "batch_result e s a b =
     (id_it b = id_it a \<and>
      (if pngUrl a \<noteq> [] then b = a
       else if conversion_fails e s a
         then status b = Error \<and> error_it b = ''Failed to convert'' \<and> pngUrl b = []
         else status b = Done \<and> pngUrl b \<noteq> [] \<and> error_it b = []))"

text \<open>The same relation part of the way through the batch loop: \<open>xs\<close> are the snapshot items
  visited so far (or still to visit, from the state where the visit starts), \<open>F\<close> tells
  whose conversion fails.\<close>

definition batch_rel :: "(item \<Rightarrow> bool) \<Rightarrow> item list \<Rightarrow> item \<Rightarrow> item \<Rightarrow> bool" where
  "batch_rel F xs a b =
     (id_it b = id_it a
      \<and> (\<forall>x \<in> set xs. id_it x = id_it a \<and> pngUrl x = [] \<longrightarrow>
            (if F x then status b = Error \<and> error_it b = ''Failed to convert'' \<and> pngUrl b = pngUrl a
             else status b = Done \<and> pngUrl b \<noteq> [] \<and> error_it b = []))
      \<and> ((\<forall>x \<in> set xs. id_it x = id_it a \<longrightarrow> pngUrl x \<noteq> []) \<longrightarrow> b = a))"

text \<open>One turn of the loop of \<open>convertAll\<close>.\<close>

definition batch_step :: "env \<Rightarrow> state \<Rightarrow> item \<Rightarrow> state \<Rightarrow> state" where
  "batch_step e snap it t = (if pngUrl it = [] then convertOne e snap (id_it it) t else t)"

text \<open>A browser whose encoder always delivers, some JPEG files, and the page after
  they were selected.\<close>

text \<open>A freshly created item (as \<open>createItem\<close> builds it).\<close>

definition item0 :: "string \<Rightarrow> File \<Rightarrow> string \<Rightarrow> item" where
  "item0 i f u = \<lparr>id_it = i, file_it = f, previewUrl = u, pngUrl = [], status = Idle, error_it = [], width = 0, height = 0\<rparr>"

definition env0 :: env where
  "env0 = \<lparr> random_suffix = (\<lambda>n. ''r'' @ string_of_nat n), toBlob = (\<lambda>w h m q. True) \<rparr>"

definition jpeg_file :: "string \<Rightarrow> (int \<times> int) option \<Rightarrow> File" where
  "jpeg_file n img = \<lparr> name = n, type_f = ''image/jpeg'', size_f = 204800, lastModified = 17,
                         image = img \<rparr>"

definition photo :: File where
  "photo = jpeg_file ''photo.jpg'' (Some (1600, 1200))"

definition batch5 :: "File list" where
  "batch5 = [jpeg_file ''a.jpg'' (Some (1600, 1200)), jpeg_file ''b.jpg'' None,
             jpeg_file ''c.jpg'' (Some (640, 480)), jpeg_file ''d.jpg'' (Some (800, 800)),
             jpeg_file ''e.jpg'' (Some (1, 1))]"

definition s_one :: state where
  "s_one = onSelectFiles env0 [photo] init"

definition s_five :: state where
  "s_five = onSelectFiles env0 batch5 init"

definition s_nineteen :: state where
  "s_nineteen = onSelectFiles env0 (replicate 19 photo) init"

definition s_done :: state where
  "s_done = convertOne env0 s_one ''photo.jpg-204800-17-r0'' s_one"

text \<open>The page while a batch run over \<open>s_five\<close> awaits the decoding of its first item.\<close>

definition s_batch :: state where
  "s_batch = convertOne_begin ''a.jpg-204800-17-r0'' (s_five\<lparr>isConvertingAll := True\<rparr>)"

text \<open>The same photo selected and converted with WebP chosen as the output format.\<close>

definition s_webp :: state where
  "s_webp = s_one\<lparr>outputFormat := Webp\<rparr>"

definition s_webp_done :: state where
  "s_webp_done = convertOne env0 s_webp ''photo.jpg-204800-17-r0'' s_webp"


section \<open>Validator\<close>

subsection \<open>What the two patterns accept\<close>

lemma eq_ignoring_case_length: "eq_ignoring_case a b \<Longrightarrow> length a = length b"
  unfolding eq_ignoring_case_def by (metis length_map)

lemma eq_ignoring_case_Cons:
  "eq_ignoring_case s (c # b) \<longleftrightarrow>
     (case s of [] \<Rightarrow> False | x # xs \<Rightarrow> canonicalize x = canonicalize c \<and> eq_ignoring_case xs b)"
  unfolding eq_ignoring_case_def by (auto split: list.splits)

lemma eq_ignoring_case_Nil [simp]: "eq_ignoring_case s [] \<longleftrightarrow> s = []"
  unfolding eq_ignoring_case_def by simp

lemma match_to_end_Eps: "match_to_end Eps s \<longleftrightarrow> s = []"
  by (auto simp: match_to_end_def)

lemma match_to_end_Chr: "match_to_end (Chr c) s \<longleftrightarrow> eq_ignoring_case s [c]"
  by (auto simp: match_to_end_def eq_ignoring_case_def split: list.splits)

lemma match_to_end_Alt: "match_to_end (Alt a b) s \<longleftrightarrow> match_to_end a s \<or> match_to_end b s"
  by (auto simp: match_to_end_def)

lemma match_to_end_Seq_Chr:
  "match_to_end (Seq (Chr c) r) s \<longleftrightarrow>
     (case s of [] \<Rightarrow> False | x # xs \<Rightarrow> canonicalize x = canonicalize c \<and> match_to_end r xs)"
  by (auto simp: match_to_end_def split: list.splits)

lemma match_to_end_Seq_Opt:
  "match_to_end (Seq (Opt a) r) s \<longleftrightarrow> match_to_end (Seq a r) s \<or> match_to_end r s"
  by (auto simp: match_to_end_def)

lemma match_to_end_Seq_Seq:
  "match_to_end (Seq (Seq a b) r) s \<longleftrightarrow> match_to_end (Seq a (Seq b r)) s"
  by (auto simp: match_to_end_def)

lemma match_to_end_Seq_Eps: "match_to_end (Seq Eps r) s \<longleftrightarrow> match_to_end r s"
  by (auto simp: match_to_end_def)

lemmas match_to_end_simps =
  match_to_end_Eps match_to_end_Chr match_to_end_Alt match_to_end_Seq_Chr
  match_to_end_Seq_Opt match_to_end_Seq_Seq match_to_end_Seq_Eps

lemma test_jpeg_type_iff:
  "test_jpeg_type t \<longleftrightarrow> eq_ignoring_case t ''image/jpeg'' \<or> eq_ignoring_case t ''image/jpg''"
  unfolding test_jpeg_type_def jpeg_type_re_def
  by (simp add: match_to_end_simps eq_ignoring_case_Cons split: list.splits)

lemma match_jpeg_ext_iff:
  "match_to_end jpeg_ext_re u \<longleftrightarrow> eq_ignoring_case u ''.jpeg'' \<or> eq_ignoring_case u ''.jpg''"
  unfolding jpeg_ext_re_def
  by (simp add: match_to_end_simps eq_ignoring_case_Cons split: list.splits)

lemma search_end_None_iff:
  "search_end r s = None \<longleftrightarrow> (\<forall>i \<le> length s. \<not> match_to_end r (drop i s))"
proof -
  have "(\<forall>i \<in> set [0 ..< Suc (length s)]. \<not> match_to_end r (drop i s)) \<longleftrightarrow>
        (\<forall>i \<le> length s. \<not> match_to_end r (drop i s))"
    using less_Suc_eq_le by auto
  then show ?thesis unfolding search_end_def find_None_iff by blast
qed

lemma ends_with_ignoring_case_iff:
  "ends_with_ignoring_case s w \<longleftrightarrow> (\<exists>i \<le> length s. eq_ignoring_case (drop i s) w)"
proof
  assume "ends_with_ignoring_case s w"
  then show "\<exists>i \<le> length s. eq_ignoring_case (drop i s) w"
    unfolding ends_with_ignoring_case_def by (intro exI[of _ "length s - length w"]) simp
next
  assume "\<exists>i \<le> length s. eq_ignoring_case (drop i s) w"
  then obtain i where i: "i \<le> length s" "eq_ignoring_case (drop i s) w" by blast
  from eq_ignoring_case_length[OF i(2)] i(1)
  have "length w \<le> length s" "i = length s - length w" by auto
  with i show "ends_with_ignoring_case s w" unfolding ends_with_ignoring_case_def by simp
qed

lemma test_jpeg_ext_iff:
  "test_jpeg_ext n \<longleftrightarrow>
     ends_with_ignoring_case n ''.jpeg'' \<or> ends_with_ignoring_case n ''.jpg''"
  unfolding test_jpeg_ext_def search_end_None_iff ends_with_ignoring_case_iff match_jpeg_ext_iff
  by blast

subsection \<open>Admission\<close>

lemma collect_valid_filter: "collect_valid list valid = valid @ filter spec_admissible list"
  by (induction list arbitrary: valid)
     (auto simp: spec_admissible_def indicates_jpeg_def test_jpeg_type_iff test_jpeg_ext_iff
        MAX_SIZE_MB_def)

lemma createItem_file [simp]: "file_it (fst (createItem e f s)) = f"
  by (simp add: createItem_def Let_def case_prod_beta)

lemma createItems_file_it: "map file_it (fst (createItems e fs s)) = fs"
  by (induction fs arbitrary: s) (simp_all add: Let_def case_prod_beta)

lemma onSelectFiles_files:
  "map file_it (files (onSelectFiles e list s)) =
     map file_it (files s) @ take (MAX_FILES - length (files s)) (collect_valid list [])"
proof -
  have n: "nat (max 0 (int MAX_FILES - int (length (files s)))) = MAX_FILES - length (files s)"
    by simp
  show ?thesis
    unfolding onSelectFiles_def Let_def
    by (simp add: case_prod_beta createItems_file_it n del: of_nat_diff)
qed

text \<open>
  Claim C1.  The files that pass validation are exactly the offered files whose declared
  media type or file name extension indicates JPEG and whose size is at most 50 MB, in
  the order offered.  The store receives, after the items it holds, one item for each of
  the first \<open>MAX_FILES - length (files s)\<close> of them, so a store within the cap of 20
  stays within it however many valid files are offered.
\<close>

theorem validator_admits_within_capacity:
  assumes "length (files s) \<le> MAX_FILES"
  shows "collect_valid list [] = filter spec_admissible list
       \<and> map file_it (files (onSelectFiles e list s))
           = map file_it (files s) @ take (MAX_FILES - length (files s)) (filter spec_admissible list)
       \<and> length (files (onSelectFiles e list s)) \<le> 20"
proof -
  have v: "collect_valid list [] = filter spec_admissible list"
    by (simp add: collect_valid_filter)
  have m: "map file_it (files (onSelectFiles e list s))
           = map file_it (files s) @ take (MAX_FILES - length (files s)) (filter spec_admissible list)"
    using onSelectFiles_files[of e list s] v by simp
  have "length (map file_it (files (onSelectFiles e list s))) \<le> MAX_FILES"
    unfolding m using assms by simp
  then have "length (files (onSelectFiles e list s)) \<le> 20"
    by (simp only: length_map MAX_FILES_def)
  with v m show ?thesis by blast
qed

text \<open>Nineteen items are held and five valid files are offered: one is admitted.\<close>

lemmas spec_admissible_defs =
  spec_admissible_def indicates_jpeg_def eq_ignoring_case_def ends_with_ignoring_case_def
  canonicalize_def jpeg_file_def

theorem validator_admits_within_capacity_witness:
  "length (files s_nineteen) \<le> MAX_FILES
   \<and> map file_it (files (onSelectFiles env0 batch5 s_nineteen))
       = replicate 19 photo @ [jpeg_file ''a.jpg'' (Some (1600, 1200))]
   \<and> length (files (onSelectFiles env0 batch5 s_nineteen)) \<le> 20"
proof -
  have p: "spec_admissible photo" by (simp add: spec_admissible_defs photo_def)
  have b: "filter spec_admissible batch5 = batch5" by (simp add: spec_admissible_defs batch5_def)
  have "map file_it (files s_nineteen) = replicate 19 photo"
    unfolding s_nineteen_def onSelectFiles_files collect_valid_filter
    using p by (simp add: init_def MAX_FILES_def)
  then have f: "map file_it (files s_nineteen) = replicate 19 photo"
    and l: "length (files s_nineteen) = 19" by (simp_all flip: length_map[of file_it])
  have h: "length (files s_nineteen) \<le> MAX_FILES" using l by (simp add: MAX_FILES_def)
  from validator_admits_within_capacity[OF h, of batch5 env0]
  show ?thesis using h by (simp add: b f l MAX_FILES_def) (simp add: batch5_def)
qed

section \<open>Geometry Resolver\<close>

subsection \<open>Rounding to binary64\<close>

lemma pow2_powi: "pow2 k = 2 powi k"
  by (simp add: pow2_def power_int_def field_simps)

lemma pow2_pos [simp]: "0 < pow2 k"
  by (simp add: pow2_def)

lemma pow2_add: "pow2 (a + b) = pow2 a * pow2 b"
  by (simp add: pow2_powi power_int_add)

lemma pow2_nat: "pow2 (int n) = 2 ^ n"
  by (simp add: pow2_def)

lemma pow2_mono: "a \<le> b \<Longrightarrow> pow2 a \<le> pow2 b"
  by (simp add: pow2_powi power_int_increasing)

lemma pow2_less_cancel: "pow2 a < pow2 b \<Longrightarrow> a < b"
  using pow2_mono[of b a] by (cases "a < b") auto

lemma ilog2_le: assumes "0 < x" shows "pow2 (ilog2 x) \<le> x"
proof (cases "1 \<le> x")
  case True
  then have n: "0 < \<lfloor>x\<rfloor>" by linarith
  from bitlen_bounds[OF n] have b: "2 ^ nat (bitlen \<lfloor>x\<rfloor> - 1) \<le> \<lfloor>x\<rfloor>" by simp
  have "0 \<le> bitlen \<lfloor>x\<rfloor> - 1" using n by (simp add: bitlen_alt_def)
  then have "pow2 (bitlen \<lfloor>x\<rfloor> - 1) = 2 ^ nat (bitlen \<lfloor>x\<rfloor> - 1)"
    by (simp add: pow2_def)
  also have "\<dots> = of_int (2 ^ nat (bitlen \<lfloor>x\<rfloor> - 1))" by simp
  also have "\<dots> \<le> of_int \<lfloor>x\<rfloor>" using b by (simp only: of_int_le_iff)
  also have "\<dots> \<le> x" by simp
  finally show ?thesis using True by (simp add: ilog2_def)
next
  case False
  define m where "m = \<lceil>1 / x\<rceil> - 1"
  from False assms have "1 < 1 / x" by simp
  then have m: "0 < m" unfolding m_def by linarith
  from bitlen_bounds[OF m] have "m < 2 ^ nat (bitlen m)" by simp
  then have "m + 1 \<le> 2 ^ nat (bitlen m)" by simp
  then have "(of_int (m + 1) :: rat) \<le> of_int (2 ^ nat (bitlen m))" by (simp only: of_int_le_iff)
  moreover have "1 / x \<le> of_int (m + 1)" unfolding m_def by simp
  ultimately have "1 / x \<le> 2 ^ nat (bitlen m)" by simp
  then have "1 / 2 ^ nat (bitlen m) \<le> x" using assms
    by (simp add: field_simps)
  moreover have "0 < bitlen m" using m by (simp add: bitlen_alt_def)
  ultimately have "pow2 (- bitlen m) \<le> x" by (simp add: pow2_def)
  then show ?thesis using False by (simp add: ilog2_def m_def)
qed

lemma round_half_even_error: "\<bar>of_int (round_half_even y) - y\<bar> \<le> 1 / 2"
  unfolding round_half_even_def Let_def by (auto simp: abs_if) linarith+

lemma round_half_even_of_int [simp]: "round_half_even (of_int n) = n"
  by (simp add: round_half_even_def)

lemma fl_error: assumes "0 < x" shows "\<bar>fl x - x\<bar> \<le> x / 2 ^ 53"
proof -
  define u where "u = pow2 (ilog2 \<bar>x\<bar> - 52)"
  have u: "0 < u" by (simp add: u_def)
  have flx: "fl x = of_int (round_half_even (x / u)) * u"
    using assms by (simp add: fl_def u_def Let_def)
  have "fl x - x = (of_int (round_half_even (x / u)) - x / u) * u"
    unfolding flx using u by (simp add: left_diff_distrib)
  then have "\<bar>fl x - x\<bar> = \<bar>of_int (round_half_even (x / u)) - x / u\<bar> * u"
    using u by (simp add: abs_mult)
  also have "\<dots> \<le> 1 / 2 * u" using round_half_even_error[of "x / u"] u
    by (intro mult_right_mono) auto
  also have "2 ^ 53 * (1 / 2 * u) = pow2 (ilog2 x)"
  proof -
    have "pow2 (ilog2 x) = pow2 (ilog2 x - 52 + 52)" by simp
    also have "\<dots> = pow2 (ilog2 x - 52) * pow2 52" by (rule pow2_add)
    finally show ?thesis using assms by (simp add: u_def pow2_def)
  qed
  then have "1 / 2 * u = pow2 (ilog2 x) / 2 ^ 53" by (simp add: field_simps)
  also have "\<dots> \<le> x / 2 ^ 53" using ilog2_le[OF assms] by (simp add: divide_right_mono)
  finally show ?thesis .
qed

lemma fl_of_int: assumes "0 < n" "n < 2 ^ 53" shows "fl (of_int n) = of_int n"
proof -
  define e where "e = ilog2 (of_int n)"
  have "pow2 e \<le> of_int n" unfolding e_def using assms by (intro ilog2_le) simp
  also have "(of_int n :: rat) < of_int (2 ^ 53)" using assms(2) by (simp only: of_int_less_iff)
  also have "(of_int (2 ^ 53) :: rat) = pow2 53" by (simp add: pow2_def)
  finally have "e < 53" by (rule pow2_less_cancel)
  then have u: "pow2 (e - 52) = 1 / 2 ^ nat (52 - e)"
    by (cases "e = 52") (simp_all add: pow2_def)
  have "of_int n / pow2 (e - 52) = (of_int (n * 2 ^ nat (52 - e)) :: rat)"
    unfolding u by simp
  then have "round_half_even (of_int n / pow2 (e - 52)) = n * 2 ^ nat (52 - e)"
    by (simp only: round_half_even_of_int)
  then show ?thesis using assms(1) by (simp add: fl_def Let_def e_def[symmetric] u)
qed


subsection \<open>Error of the two-step scaling\<close>

lemma fl_pos: assumes "0 < x" shows "0 < fl x"
proof -
  have "x / 2 ^ 53 < x" using assms by (simp add: field_simps)
  with fl_error[OF assms] show ?thesis by linarith
qed

lemma js_round_eq: assumes "\<bar>y - of_int n\<bar> < 1 / 2" shows "js_round y = n"
  unfolding js_round_def using assms by (intro floor_unique) (auto simp: abs_if split: if_splits)

lemma scaled_error:
  assumes r: "0 < r" and f: "\<bar>f - r\<bar> \<le> r / 2 ^ 53" and a: "0 < a"
  shows "\<bar>fl (a * f) - a * r\<bar> \<le> 3 * (a * r) / 2 ^ 53" and "0 < fl (a * f)"
proof -
  have "r / 2 ^ 53 < r" using r by (simp add: field_simps)
  with f have fpos: "0 < f" and f2: "f \<le> 2 * r" by linarith+
  then have af: "0 < a * f" using a by simp
  show "0 < fl (a * f)" by (rule fl_pos[OF af])
  have "a * f \<le> a * (2 * r)" using f2 a by (intro mult_left_mono) auto
  then have 1: "\<bar>fl (a * f) - a * f\<bar> \<le> 2 * (a * r) / 2 ^ 53"
    using fl_error[OF af] by (simp add: field_simps)
  have "\<bar>a * f - a * r\<bar> = a * \<bar>f - r\<bar>" using a by (simp add: abs_mult flip: right_diff_distrib)
  also have "\<dots> \<le> a * (r / 2 ^ 53)" using f a by (intro mult_left_mono) auto
  finally have 2: "\<bar>a * f - a * r\<bar> \<le> (a * r) / 2 ^ 53" by simp
  from 1 2 show "\<bar>fl (a * f) - a * r\<bar> \<le> 3 * (a * r) / 2 ^ 53" by linarith
qed

lemma js_round_nearest:
  fixes W H L :: int
  assumes W: "0 < W"
    and y: "\<bar>y - of_int (H * L) / of_int W\<bar> \<le> d"
    and d: "2 * of_int W * d < 1"
  shows "(2 * js_round y - 1) * W \<le> 2 * (H * L) \<and> 2 * (H * L) \<le> (2 * js_round y + 1) * W"
proof -
  define n where "n = js_round y"
  have n1: "of_int n \<le> y + 1 / 2" and n2: "y + 1 / 2 < of_int n + 1"
    unfolding n_def js_round_def by linarith+
  have Wr: "(0::rat) < of_int W" using W by simp
  define x :: rat where "x = of_int (H * L) / of_int W"
  have xW: "x * of_int W = of_int (H * L)" unfolding x_def using Wr by simp
  from y have y1: "y \<le> x + d" and y2: "x - d \<le> y" unfolding x_def by linarith+
  have "of_int n - 1 / 2 - d \<le> x" using n1 y1 by linarith
  then have "(of_int n - 1 / 2 - d) * (2 * of_int W) \<le> x * (2 * of_int W)"
    using Wr by (intro mult_right_mono) auto
  then have "(2 * of_int n - 1) * of_int W - 2 * of_int W * d \<le> 2 * of_int (H * L)"
    using xW by (simp add: algebra_simps)
  with d have "(2 * of_int n - 1) * of_int W < (2 * of_int (H * L) + 1 :: rat)" by linarith
  then have "(of_int ((2 * n - 1) * W) :: rat) < of_int (2 * (H * L) + 1)" by simp
  then have a: "(2 * n - 1) * W < 2 * (H * L) + 1" by (simp only: of_int_less_iff)
  have "x < of_int n + 1 / 2 + d" using n2 y2 by linarith
  then have "x * (2 * of_int W) < (of_int n + 1 / 2 + d) * (2 * of_int W)"
    using Wr by (intro mult_strict_right_mono) auto
  then have "2 * of_int (H * L) < (2 * of_int n + 1) * of_int W + 2 * of_int W * d"
    using xW by (simp add: algebra_simps)
  with d have "2 * of_int (H * L) < ((2 * of_int n + 1) * of_int W + 1 :: rat)" by linarith
  then have "(of_int (2 * (H * L)) :: rat) < of_int ((2 * n + 1) * W + 1)" by simp
  then have b: "2 * (H * L) < (2 * n + 1) * W + 1" by (simp only: of_int_less_iff)
  from a b show ?thesis unfolding n_def by linarith
qed


lemma resolveTarget_width_only:
  assumes "fitMode st = Contain" "keepAspect st" "maxWidth st = L" "maxHeight st = 0"
    and "0 < L" "W \<noteq> 0"
  shows "resolveTarget st W H =
     (max 1 (js_round (fl (of_int W * min (fl (of_int L / of_int W)) 1000000))),
      max 1 (js_round (fl (of_int H * min (fl (of_int L / of_int W)) 1000000))))"
  using assms by (simp add: resolveTarget_def js_div_def js_mul_def Let_def)

lemma clamp_close:
  fixes r s :: rat
  assumes "\<bar>s - r\<bar> \<le> e" "r \<le> c"
  shows "\<bar>min s c - r\<bar> \<le> e"
  using assms by (auto simp: min_def abs_if split: if_splits)

text \<open>
  Claim C2, amended.  In contain mode with the aspect locked and only a width limit \<open>L\<close>,
  both axes are scaled by the one factor \<open>min (L / W) 10^6\<close>, computed in binary64, and each
  result is rounded and raised to at least 1.  For dimensions below \<open>2^24\<close>: when
  \<open>L \<le> 10^6 * W\<close> the target width is exactly \<open>L\<close> and the target height \<open>h\<close> is an integer
  nearest to \<open>H * L / W\<close> (\<open>2 * |h * W - H * L| \<le> W\<close>), or 1 when that quotient is at most one
  half; when \<open>L > 10^6 * W\<close> the factor is \<open>10^6\<close> and the target is \<open>10^6 * W\<close> by \<open>10^6 * H\<close>.
\<close>

theorem contain_locked_width_only:
  assumes mode: "fitMode st = Contain" "keepAspect st" "maxWidth st = L" "maxHeight st = 0"
    and W: "0 < W" "W < 2 ^ 24" and H: "0 < H" "H < 2 ^ 24" and L: "0 < L" "L < 2 ^ 24"
  shows "(L \<le> 1000000 * W \<longrightarrow>
            fst (resolveTarget st W H) = L
          \<and> (let h = snd (resolveTarget st W H)
             in (1 \<le> h \<and> \<bar>2 * (h * W - H * L)\<bar> \<le> W) \<or> (h = 1 \<and> 2 * (H * L) \<le> W)))
       \<and> (1000000 * W < L \<longrightarrow> resolveTarget st W H = (1000000 * W, 1000000 * H))"
proof (intro conjI impI)
  define r :: rat where "r = of_int L / of_int W"
  define f where "f = min (fl r) 1000000"
  have Wr: "(0::rat) < of_int W" and Hr: "(0::rat) < of_int H" and Lr: "(0::rat) < of_int L"
    using W H L by simp_all
  have r: "0 < r" unfolding r_def using Wr Lr by simp
  have rt: "resolveTarget st W H =
      (max 1 (js_round (fl (of_int W * f))), max 1 (js_round (fl (of_int H * f))))"
    unfolding f_def r_def using mode L W by (intro resolveTarget_width_only) auto
  have Wr_eq: "of_int W * r = of_int L" unfolding r_def using Wr by simp
  have Hr_eq: "of_int H * r = of_int (H * L) / of_int W" unfolding r_def by simp
  {
    assume le: "L \<le> 1000000 * W"
    then have "(of_int L :: rat) \<le> of_int (1000000 * W)" by (simp only: of_int_le_iff)
    then have rc: "r \<le> 1000000" unfolding r_def using Wr by (simp add: field_simps)
    have f: "\<bar>f - r\<bar> \<le> r / 2 ^ 53"
      unfolding f_def using fl_error[OF r] rc by (rule clamp_close)
    have "(of_int L :: rat) < of_int (2 ^ 24)" using L by (simp only: of_int_less_iff)
    then have Lb: "(of_int L :: rat) < 2 ^ 24" by simp
    have "\<bar>fl (of_int W * f) - of_int L\<bar> \<le> 3 * of_int L / 2 ^ 53"
      using scaled_error(1)[OF r f Wr] by (simp add: Wr_eq)
    also have "\<dots> < 1 / 2" using Lb by simp
    finally have "js_round (fl (of_int W * f)) = L" by (rule js_round_eq)
    then show "fst (resolveTarget st W H) = L" using L by (simp add: rt)
    define y where "y = fl (of_int H * f)"
    define n where "n = js_round y"
    have ypos: "0 < y" unfolding y_def by (rule scaled_error(2)[OF r f Hr])
    then have n0: "0 \<le> n" unfolding n_def js_round_def by simp
    have yerr: "\<bar>y - of_int (H * L) / of_int W\<bar> \<le> 3 * (of_int (H * L) / of_int W) / 2 ^ 53"
      unfolding y_def using scaled_error(1)[OF r f Hr] by (simp add: Hr_eq)
    have "H * L < 2 ^ 24 * 2 ^ 24" using H L by (intro mult_strict_mono) auto
    then have "(of_int (H * L) :: rat) < of_int (2 ^ 24 * 2 ^ 24)" by (simp only: of_int_less_iff)
    then have HLb: "(of_int (H * L) :: rat) < 2 ^ 48" by simp
    have "2 * of_int W * (3 * (of_int (H * L) / of_int W) / 2 ^ 53) = (6 * of_int (H * L) / 2 ^ 53 :: rat)"
      using Wr by simp
    also have "\<dots> < 1" using HLb by simp
    finally have d: "2 * of_int W * (3 * (of_int (H * L) / of_int W) / 2 ^ 53) < (1::rat)" .
    from js_round_nearest[OF W(1) yerr d]
    have nb: "(2 * n - 1) * W \<le> 2 * (H * L)" "2 * (H * L) \<le> (2 * n + 1) * W"
      unfolding n_def by auto
    have h: "snd (resolveTarget st W H) = max 1 n" by (simp add: rt n_def y_def)
    show "let h = snd (resolveTarget st W H)
          in (1 \<le> h \<and> \<bar>2 * (h * W - H * L)\<bar> \<le> W) \<or> (h = 1 \<and> 2 * (H * L) \<le> W)"
    proof (cases "n = 0")
      case True
      with nb(2) h show ?thesis by (simp add: Let_def)
    next
      case False
      with n0 have "1 \<le> n" by simp
      moreover from nb have "\<bar>2 * (n * W - H * L)\<bar> \<le> W" by (simp add: algebra_simps abs_le_iff)
      ultimately show ?thesis using h by (simp add: Let_def)
    qed
  }
  {
    assume gt: "1000000 * W < L"
    then have "1000000 * W + 1 \<le> L" by simp
    then have "(of_int (1000000 * W + 1) :: rat) \<le> of_int L" by (simp only: of_int_le_iff)
    then have "of_int (1000000 * W + 1) / of_int W \<le> r"
      unfolding r_def using Wr by (intro divide_right_mono) auto
    moreover have "(of_int (1000000 * W + 1) :: rat) / of_int W = 1000000 + 1 / of_int W"
      using Wr by (simp add: field_simps)
    ultimately have r1: "1000000 + 1 / of_int W \<le> r" by simp
    have "(of_int W :: rat) < of_int (2 ^ 24)" using W by (simp only: of_int_less_iff)
    then have "(of_int W :: rat) < 2 ^ 24" by simp
    then have r2: "1 / 2 ^ 24 < 1 / (of_int W :: rat)" using Wr by (simp add: field_simps)
    have "(1 :: rat) \<le> of_int W" using W by simp
    then have "r \<le> of_int L" unfolding r_def using Lr by (simp add: field_simps)
    moreover have "(of_int L :: rat) < of_int (2 ^ 24)" using L by (simp only: of_int_less_iff)
    ultimately have "r < 2 ^ 24" by simp
    then have r3: "r / 2 ^ 53 < 2 ^ 24 / 2 ^ 53" by (simp add: divide_strict_right_mono)
    have "r - r / 2 ^ 53 \<le> fl r" using fl_error[OF r] by linarith
    with r1 r2 r3 have "(1000000 :: rat) \<le> fl r" by simp
    then have f: "f = 1000000" unfolding f_def by simp
    have small: "1000000 * a < 2 ^ 53" if "a < 2 ^ 24" for a :: int
      using that by simp
    have ex: "js_round (fl (of_int a * f)) = 1000000 * a" if "0 < a" "a < 2 ^ 24" for a :: int
    proof -
      have "fl (of_int a * f) = fl (of_int (1000000 * a))" unfolding f by (simp add: mult.commute)
      also have "\<dots> = of_int (1000000 * a)" using that small by (intro fl_of_int) auto
      finally show ?thesis by (intro js_round_eq) simp
    qed
    show "resolveTarget st W H = (1000000 * W, 1000000 * H)"
      unfolding rt using ex[OF W] ex[OF H] W H by simp
  }
qed


text \<open>The claim as worded fails where the factor is capped (1 by 1 with limit 2000000)
  and where the minimum of 1 applies (1600 by 1 with limit 8).\<close>

theorem contain_locked_width_only_counterexample:
  "resolveTarget (init\<lparr>maxWidth := 2000000\<rparr>) 1 1 = (1000000, 1000000)
   \<and> spec_same_ratio 2000000 1 1 = (2000000, 2000000)
   \<and> resolveTarget (init\<lparr>maxWidth := 8\<rparr>) 1600 1 = (8, 1)
   \<and> spec_same_ratio 8 1600 1 = (8, 0)"
  by code_simp

text \<open>The scenario of the specification: 1600 by 1200 with \<open>maxWidth = 800\<close> gives 800 by 600.\<close>

theorem contain_locked_width_only_witness:
  "fitMode (init\<lparr>maxWidth := 800\<rparr>) = Contain \<and> keepAspect (init\<lparr>maxWidth := 800\<rparr>)
   \<and> maxWidth (init\<lparr>maxWidth := 800\<rparr>) = 800 \<and> maxHeight (init\<lparr>maxWidth := 800\<rparr>) = 0
   \<and> resolveTarget (init\<lparr>maxWidth := 800\<rparr>) 1600 1200 = (800, 600)"
proof -
  let ?st = "init\<lparr>maxWidth := 800\<rparr>"
  have m: "fitMode ?st = Contain" "keepAspect ?st" "maxWidth ?st = 800" "maxHeight ?st = 0"
    by (simp_all add: init_def)
  have "fst (resolveTarget ?st 1600 1200) = 800"
    using contain_locked_width_only[OF m, of 1600 1200] by simp
  moreover have "snd (resolveTarget ?st 1600 1200) = 600"
    using contain_locked_width_only[OF m, of 1600 1200] by (simp add: Let_def abs_le_iff)
  ultimately have "resolveTarget ?st 1600 1200 = (800, 600)" by (metis prod.collapse)
  with m show ?thesis by blast
qed

text \<open>
  Claim C10.  In contain mode with the aspect unlocked, no width limit and a height limit
  \<open>L\<close>, the scale is infinite and replaced by 1, so the target is exactly the source width
  by the height limit (for integers that are Numbers).
\<close>

theorem contain_unlocked_height_only:
  assumes "fitMode st = Contain" "\<not> keepAspect st" "maxWidth st = 0" "maxHeight st = L"
    and "0 < W" "isSafeInteger W" "0 < H" "0 < L" "isSafeInteger L"
  shows "resolveTarget st W H = (W, L)"
proof -
  have ex: "max 1 (js_round (fl (of_int a * 1))) = a" if "0 < a" "isSafeInteger a" for a
  proof -
    from that have "a < 2 ^ 53" by (simp add: isSafeInteger_def)
    with that have "fl (of_int a) = of_int a" by (intro fl_of_int)
    then have "js_round (fl (of_int a * 1)) = a" by (intro js_round_eq) simp
    with that show ?thesis by simp
  qed
  show ?thesis
    using assms ex[of W] ex[of L]
    by (simp add: resolveTarget_def js_mul_def Let_def)
qed

theorem contain_unlocked_height_only_witness:
  "fitMode (init\<lparr>keepAspect := False, maxHeight := 600\<rparr>) = Contain
   \<and> \<not> keepAspect (init\<lparr>keepAspect := False, maxHeight := 600\<rparr>)
   \<and> maxWidth (init\<lparr>keepAspect := False, maxHeight := 600\<rparr>) = 0
   \<and> isSafeInteger 1600 \<and> isSafeInteger 600
   \<and> resolveTarget (init\<lparr>keepAspect := False, maxHeight := 600\<rparr>) 1600 1200 = (1600, 600)"
  using contain_unlocked_height_only[of "init\<lparr>keepAspect := False, maxHeight := 600\<rparr>" 600 1600 1200]
  by (simp add: init_def isSafeInteger_def)

section \<open>Item store\<close>

subsection \<open>Concrete states\<close>

lemmas regex_defs = test_jpeg_type_def test_jpeg_ext_def search_end_def match_to_end_def
  jpeg_type_re_def jpeg_ext_re_def canonicalize_def replace_jpeg_ext_def
lemmas str_defs = string_of_int_def string_of_nat_def digits_of.simps
lemmas intake_defs = onSelectFiles_def createItem_def createObjectURL_def random_id_def
  MAX_FILES_def MAX_SIZE_MB_def env0_def
lemmas convert_defs = convertOne_def convertOne_begin_def convertItem_def load_image_def
  createObjectURL_def mime_of_def quality_arg_def env0_def

lemma s_one_eq:
  "s_one = init\<lparr>files := [item0 ''photo.jpg-204800-17-r0'' photo ''blob:0''],
                 objects := [(''blob:0'', FileBlob photo)], url_count := 1, rand_count := 1\<rparr>"
  by (simp add: s_one_def item0_def regex_defs str_defs intake_defs Let_def init_def photo_def jpeg_file_def)

lemma resolve_init: "resolveTarget init w h = (w, h)"
  by (simp add: resolveTarget_def init_def)

lemma s_done_eq:
  "s_done = init\<lparr>files := [(item0 ''photo.jpg-204800-17-r0'' photo ''blob:0'')
                             \<lparr>pngUrl := ''blob:1'', status := Done, width := 1600, height := 1200\<rparr>],
                 objects := [(''blob:0'', FileBlob photo), (''blob:1'', ImageBlob ''image/png'' None 1600 1200)],
                 url_count := 2, rand_count := 1, canvases := [(1600, 1200)]\<rparr>"
  unfolding s_done_def s_one_eq
  by (simp add: item0_def convert_defs str_defs Let_def resolveTarget_def init_def photo_def jpeg_file_def)


subsection \<open>Lifecycle\<close>

lemma findIndex_None: "i \<notin> id_it ` set xs \<Longrightarrow> findIndex (\<lambda>f. id_it f = i) xs = None"
  by (auto simp: findIndex_def list_ex_iff)

lemma find_id_None: "i \<notin> id_it ` set xs \<Longrightarrow> find (\<lambda>f. id_it f = i) xs = None"
  by (auto simp: find_None_iff)

lemma map_other_id: "i \<notin> id_it ` set xs \<Longrightarrow> map (\<lambda>it. if id_it it = i then g it else it) xs = xs"
  by (induction xs) auto

lemma filter_other_id: "i \<notin> id_it ` set xs \<Longrightarrow> filter (\<lambda>f. id_it f \<noteq> i) xs = xs"
  by (induction xs) auto

lemma convertOne_begin_absent: "i \<notin> id_it ` set (files s) \<Longrightarrow> convertOne_begin i s = s"
  by (simp add: convertOne_begin_def map_other_id)

lemma convertItem_revoked [simp]: "revoked (snd (convertItem e snap item s)) = revoked s"
  by (simp add: convertItem_def createObjectURL_def Let_def split: option.splits prod.splits)

lemma convertItem_files:
  "files (snd (convertItem e snap item s)) =
     (case load_image s (previewUrl item) of
        None \<Rightarrow> files s
      | Some (w, h) \<Rightarrow>
          map (\<lambda>it. if id_it it = id_it item then it\<lparr>width := w, height := h\<rparr> else it) (files s))"
  by (simp add: convertItem_def createObjectURL_def Let_def split: option.splits prod.splits)

lemma find_id_Some: "find (\<lambda>f. id_it f = i) xs = Some x \<Longrightarrow> id_it x = i"
  by (auto simp: find_Some_iff)

text \<open>
  Claim C9.  For an id that no item of the store carries, \<open>moveItem\<close> and \<open>removeOne\<close> return
  the state unchanged, and so does \<open>convertOne\<close> run from the rendered page; run from a stale
  closure (any snapshot \<open>snap\<close>) \<open>convertOne\<close> still leaves every item as it was and revokes
  no URL.
\<close>

theorem absent_id_leaves_store:
  assumes "i \<notin> id_it ` set (files s)"
  shows "moveItem i delta s = s \<and> removeOne i s = s \<and> convertOne e s i s = s
       \<and> files (convertOne e snap i s) = files s
       \<and> revoked (convertOne e snap i s) = revoked s"
proof -
  have 1: "moveItem i delta s = s" using assms by (simp add: moveItem_def findIndex_None)
  have 2: "removeOne i s = s" using assms by (simp add: removeOne_def find_id_None filter_other_id)
  have 3: "convertOne e s i s = s"
    using assms by (simp add: convertOne_def find_id_None convertOne_begin_absent)
  have b: "convertOne_begin i s = s" using assms by (rule convertOne_begin_absent)
  have 4: "files (convertOne e snap i s) = files s \<and> revoked (convertOne e snap i s) = revoked s"
  proof (cases "find (\<lambda>f. id_it f = i) (files snap)")
    case None
    then show ?thesis by (simp add: convertOne_def b)
  next
    case (Some target)
    then have t: "id_it target = i" by (rule find_id_Some)
    have f: "files (snd (convertItem e snap target s)) = files s"
      using assms by (simp add: convertItem_files t map_other_id split: option.splits)
    obtain r s2 where c: "convertItem e snap target s = (r, s2)" by (cases "convertItem e snap target s")
    from f c have f2: "files s2 = files s" by simp
    have r2: "revoked s2 = revoked s" using convertItem_revoked[of e snap target s] c by simp
    show ?thesis
      using assms by (cases r) (simp_all add: convertOne_def b Some c f2 r2 map_other_id)
  qed
  from 1 2 3 4 show ?thesis by blast
qed

subsection \<open>Clearing\<close>





lemma fl_quality: "fl (9 / 10) = 8106479329266893 / 9007199254740992"
  by code_simp

lemma s_five_eq:
  "s_five = init\<lparr>files := [item0 ''a.jpg-204800-17-r0'' (jpeg_file ''a.jpg'' (Some (1600, 1200))) ''blob:0'',
                            item0 ''b.jpg-204800-17-r1'' (jpeg_file ''b.jpg'' None) ''blob:1'',
                            item0 ''c.jpg-204800-17-r2'' (jpeg_file ''c.jpg'' (Some (640, 480))) ''blob:2'',
                            item0 ''d.jpg-204800-17-r3'' (jpeg_file ''d.jpg'' (Some (800, 800))) ''blob:3'',
                            item0 ''e.jpg-204800-17-r4'' (jpeg_file ''e.jpg'' (Some (1, 1))) ''blob:4''],
                  objects := [(''blob:0'', FileBlob (jpeg_file ''a.jpg'' (Some (1600, 1200)))),
                              (''blob:1'', FileBlob (jpeg_file ''b.jpg'' None)),
                              (''blob:2'', FileBlob (jpeg_file ''c.jpg'' (Some (640, 480)))),
                              (''blob:3'', FileBlob (jpeg_file ''d.jpg'' (Some (800, 800)))),
                              (''blob:4'', FileBlob (jpeg_file ''e.jpg'' (Some (1, 1))))],
                  url_count := 5, rand_count := 5\<rparr>"
  by (simp add: s_five_def batch5_def item0_def regex_defs str_defs intake_defs Let_def init_def jpeg_file_def)

theorem absent_id_leaves_store_witness:
  "''ghost'' \<notin> id_it ` set (files s_one)
   \<and> moveItem ''ghost'' 1 s_one = s_one \<and> removeOne ''ghost'' s_one = s_one
   \<and> convertOne env0 s_one ''ghost'' s_one = s_one
   \<and> files (convertOne env0 s_done ''ghost'' s_one) = files s_one
   \<and> revoked (convertOne env0 s_done ''ghost'' s_one) = revoked s_one"
proof -
  have h: "''ghost'' \<notin> id_it ` set (files s_one)" by (simp add: s_one_eq item0_def)
  from absent_id_leaves_store[OF h] h show ?thesis by blast
qed


section \<open>Converter\<close>

subsection \<open>The output handle during an attempt\<close>

lemma convertOne_begin_id_pngUrl:
  "map (\<lambda>it. (id_it it, pngUrl it)) (files (convertOne_begin i s)) = map (\<lambda>it. (id_it it, pngUrl it)) (files s)"
  by (simp add: convertOne_begin_def comp_def if_distrib[of "\<lambda>it. (id_it it, pngUrl it)"] cong: if_cong)

lemma convertItem_id_pngUrl:
  "map (\<lambda>it. (id_it it, pngUrl it)) (files (snd (convertItem e snap item s))) = map (\<lambda>it. (id_it it, pngUrl it)) (files s)"
  by (simp add: convertItem_files comp_def if_distrib[of "\<lambda>it. (id_it it, pngUrl it)"] split: option.splits cong: if_cong)

lemma map_via_id_pngUrl:
  fixes xs ys :: "item list"
  assumes "map (\<lambda>it. (id_it it, pngUrl it)) xs = map (\<lambda>it. (id_it it, pngUrl it)) ys"
  shows "map (\<lambda>it. if id_it it = i then u else pngUrl it) xs = map (\<lambda>it. if id_it it = i then u else pngUrl it) ys"
proof -
  have "map (\<lambda>it. if id_it it = i then u else pngUrl it) zs
      = map (\<lambda>p. if fst p = i then u else snd p) (map (\<lambda>it. (id_it it, pngUrl it)) zs)" for zs :: "item list"
    by (simp add: comp_def)
  from this[of xs] this[of ys] assms show ?thesis by (simp only:)
qed

lemma convertOne_begin_pngUrl: "map pngUrl (files (convertOne_begin i s)) = map pngUrl (files s)"
  by (simp add: convertOne_begin_def comp_def if_distrib[of pngUrl] cong: if_cong)

lemma convertItem_pngUrl: "map pngUrl (files (snd (convertItem e snap item s))) = map pngUrl (files s)"
  by (simp add: convertItem_files comp_def if_distrib[of pngUrl] split: option.splits cong: if_cong)

lemma fold_filter_if:
  "fold (\<lambda>x t. if P x then f x t else t) xs t = fold f (filter P xs) t"
  by (induction xs arbitrary: t) simp_all

lemma convertAll_skips:
  "convertAll e snap s =
     (if files snap = [] then s
      else (fold (\<lambda>it. convertOne e snap (id_it it)) (filter (\<lambda>it. pngUrl it = []) (files snap))
              (s\<lparr>isConvertingAll := True\<rparr>))\<lparr>isConvertingAll := False\<rparr>)"
  unfolding convertAll_def
  by (simp add: fold_filter_if[where P="\<lambda>it. pngUrl it = []" and f="\<lambda>it. convertOne e snap (id_it it)"])

text \<open>
  Claim C3, amended.  Starting a conversion attempt changes exactly this: the items with
  the given id get status converting and an empty error message; every output handle stays
  as it is, for \<open>convertOne\<close> has no clearing step.  The whole attempt writes the output
  handle at most once, at its successful end (the new URL replaces whatever the item held);
  a failed attempt, or one whose item is not in the closure's snapshot, leaves all output
  handles unchanged, and so does the decoding and encoding step \<open>convertItem\<close> by itself.
  The page renders no per-item Convert button exactly for the items
  that have an output handle, and a batch run calls \<open>convertOne\<close> for just those items of
  its snapshot whose output handle is empty, in order.
\<close>

theorem conversion_writes_output_once:
  "convertOne_begin i s
     = s\<lparr>files := map (\<lambda>it. if id_it it = i then it\<lparr>status := Converting, error_it := []\<rparr> else it)
                    (files s)\<rparr>
   \<and> map pngUrl (files (convertOne_begin i s)) = map pngUrl (files s)
   \<and> (case find (\<lambda>f. id_it f = i) (files snap) of
         None \<Rightarrow> map pngUrl (files (convertOne e snap i s)) = map pngUrl (files s)
       | Some target \<Rightarrow>
           (case fst (convertItem e snap target (convertOne_begin i s)) of
              Inl err \<Rightarrow> map pngUrl (files (convertOne e snap i s)) = map pngUrl (files s)
            | Inr url \<Rightarrow> map pngUrl (files (convertOne e snap i s))
                          = map (\<lambda>it. if id_it it = i then url else pngUrl it) (files s)))
   \<and> (convertOne_button s it = Hidden \<longleftrightarrow> pngUrl it \<noteq> [])
   \<and> convertAll e snap s =
       (if files snap = [] then s
        else (fold (\<lambda>it. convertOne e snap (id_it it)) (filter (\<lambda>it. pngUrl it = []) (files snap))
                (s\<lparr>isConvertingAll := True\<rparr>))\<lparr>isConvertingAll := False\<rparr>)
   \<and> map pngUrl (files (snd (convertItem e snap x t))) = map pngUrl (files t)"
proof -
  have 0: "convertOne_begin i s
     = s\<lparr>files := map (\<lambda>it. if id_it it = i then it\<lparr>status := Converting, error_it := []\<rparr> else it)
                    (files s)\<rparr>"
    by (simp add: convertOne_begin_def)
  have 1: "map pngUrl (files (convertOne_begin i s)) = map pngUrl (files s)"
    by (rule convertOne_begin_pngUrl)
  have 4: "convertOne_button s it = Hidden \<longleftrightarrow> pngUrl it \<noteq> []"
    by (simp add: convertOne_button_def)
  have 3: "case find (\<lambda>f. id_it f = i) (files snap) of
         None \<Rightarrow> map pngUrl (files (convertOne e snap i s)) = map pngUrl (files s)
       | Some target \<Rightarrow>
           (case fst (convertItem e snap target (convertOne_begin i s)) of
              Inl err \<Rightarrow> map pngUrl (files (convertOne e snap i s)) = map pngUrl (files s)
            | Inr url \<Rightarrow> map pngUrl (files (convertOne e snap i s))
                          = map (\<lambda>it. if id_it it = i then url else pngUrl it) (files s))"
  proof (cases "find (\<lambda>f. id_it f = i) (files snap)")
    case None
    then show ?thesis by (simp add: convertOne_def 1)
  next
    case (Some target)
    obtain r s2 where c: "convertItem e snap target (convertOne_begin i s) = (r, s2)"
      by (cases "convertItem e snap target (convertOne_begin i s)")
    have p: "map pngUrl (files s2) = map pngUrl (files s)"
      using convertItem_pngUrl[of e snap target "convertOne_begin i s"] c 1 by simp
    have "map (\<lambda>it. (id_it it, pngUrl it)) (files s2) = map (\<lambda>it. (id_it it, pngUrl it)) (files s)"
      using convertItem_id_pngUrl[of e snap target "convertOne_begin i s"] c
        convertOne_begin_id_pngUrl[of i s] by simp
    then have q: "map (\<lambda>it. if id_it it = i then u else pngUrl it) (files s2)
           = map (\<lambda>it. if id_it it = i then u else pngUrl it) (files s)" for u
      by (rule map_via_id_pngUrl)
    show ?thesis
      by (cases r) (simp_all add: convertOne_def Some c comp_def if_distrib[of pngUrl] p q cong: if_cong)
  qed
  have 5: "map pngUrl (files (snd (convertItem e snap x t))) = map pngUrl (files t)"
    by (rule convertItem_pngUrl)
  from 0 1 3 4 5 convertAll_skips[of e snap s] show ?thesis by blast
qed

text \<open>A converted item whose conversion is started again is rendered as converting while
  it still carries the handle of the earlier attempt.\<close>

theorem conversion_writes_output_once_counterexample:
  "map status (files s_done) = [Done] \<and> map pngUrl (files s_done) = [''blob:1'']
   \<and> map status (files (convertOne_begin ''photo.jpg-204800-17-r0'' s_done)) = [Converting]
   \<and> map pngUrl (files (convertOne_begin ''photo.jpg-204800-17-r0'' s_done)) = [''blob:1'']"
  by (simp add: s_done_eq item0_def convertOne_begin_def)

lemma s_done_retry_url:
  "fst (convertItem env0 s_done (hd (files s_done)) (convertOne_begin ''photo.jpg-204800-17-r0'' s_done))
     = Inr ''blob:2''"
  unfolding s_done_eq
  by (simp add: item0_def convert_defs str_defs Let_def resolveTarget_def init_def photo_def jpeg_file_def)

theorem conversion_writes_output_once_witness:
  "find (\<lambda>f. id_it f = ''photo.jpg-204800-17-r0'') (files s_done) = Some (hd (files s_done))
   \<and> fst (convertItem env0 s_done (hd (files s_done)) (convertOne_begin ''photo.jpg-204800-17-r0'' s_done))
       = Inr ''blob:2''
   \<and> map pngUrl (files s_done) = [''blob:1'']
   \<and> map pngUrl (files (convertOne_begin ''photo.jpg-204800-17-r0'' s_done)) = [''blob:1'']
   \<and> map pngUrl (files (convertOne env0 s_done ''photo.jpg-204800-17-r0'' s_done)) = [''blob:2'']
   \<and> convertOne_button s_done (hd (files s_done)) = Hidden
   \<and> files s_done \<noteq> []
   \<and> convertAll env0 s_done s_done = s_done\<lparr>isConvertingAll := False\<rparr>"
proof -
  let ?i = "''photo.jpg-204800-17-r0''"
  note T = conversion_writes_output_once[where i="?i" and s=s_done and snap=s_done and e=env0
      and it="hd (files s_done)"]
  have a: "find (\<lambda>f. id_it f = ?i) (files s_done) = Some (hd (files s_done))"
    and p: "map pngUrl (files s_done) = [''blob:1'']"
    and ids: "map id_it (files s_done) = [?i]"
    and ne: "files s_done \<noteq> []" and hp: "pngUrl (hd (files s_done)) \<noteq> []"
    and fl: "filter (\<lambda>it. pngUrl it = []) (files s_done) = []"
    by (simp_all add: s_done_eq item0_def)
  note b = s_done_retry_url
  have 1: "map pngUrl (files (convertOne_begin ?i s_done)) = [''blob:1'']"
    using T[THEN conjunct2, THEN conjunct1] p by simp
  have "map pngUrl (files (convertOne env0 s_done ?i s_done))
          = map (\<lambda>it. if id_it it = ?i then ''blob:2'' else pngUrl it) (files s_done)"
    using T[THEN conjunct2, THEN conjunct2, THEN conjunct1] a b by simp
  also have "\<dots> = [''blob:2'']"
  proof -
    from ids obtain x where x: "files s_done = [x]" "id_it x = ?i" by (cases "files s_done") auto
    then show ?thesis by simp
  qed
  finally have 2: "map pngUrl (files (convertOne env0 s_done ?i s_done)) = [''blob:2'']" .
  have 3: "convertOne_button s_done (hd (files s_done)) = Hidden"
    using T[THEN conjunct2, THEN conjunct2, THEN conjunct2, THEN conjunct1] hp by simp
  have 4: "convertAll env0 s_done s_done = s_done\<lparr>isConvertingAll := False\<rparr>"
    using T[THEN conjunct2, THEN conjunct2, THEN conjunct2, THEN conjunct2, THEN conjunct1] ne fl by simp
  from a b p 1 2 3 ne 4 show ?thesis by blast
qed

subsection \<open>Triggers\<close>

lemma converting_if_marked:
  assumes "x = (if id_it y = i then y\<lparr>status := Converting, error_it := []\<rparr> else y)" "id_it x = i"
  shows "status x = Converting"
  using assms by (cases "id_it y = i") simp_all

lemma convertOne_begin_status:
  assumes "x \<in> set (files (convertOne_begin i s))" "id_it x = i"
  shows "status x = Converting"
proof -
  define F :: "item \<Rightarrow> item" where "F = (\<lambda>it. if id_it it = i then it\<lparr>status := Converting, error_it := []\<rparr> else it)"
  have "files (convertOne_begin i s) = map F (files s)" by (simp add: convertOne_begin_def F_def)
  with assms(1) obtain y where "x = F y" by auto
  then have "x = (if id_it y = i then y\<lparr>status := Converting, error_it := []\<rparr> else y)"
    by (simp only: F_def)
  then show ?thesis using assms(2) by (rule converting_if_marked)
qed

text \<open>
  Claim C6, amended.  While a batch run is active and the store is not empty the Convert
  All button is disabled (with an empty store it is not rendered).  A per-item Convert
  button does not depend on the batch flag: it is not rendered when the item has an output
  handle, disabled when the item has none and its own status is converting, and enabled
  otherwise.  In the state right after an attempt on an item is started that item's status
  is converting, so its button is not enabled in that state.
\<close>

theorem triggers_during_batch:
  "(isConvertingAll s \<and> files s \<noteq> [] \<longrightarrow> convertAll_button s = Disabled)
   \<and> (files s = [] \<longrightarrow> convertAll_button s = Hidden)
   \<and> (convertOne_button s it = Hidden \<longleftrightarrow> pngUrl it \<noteq> [])
   \<and> (convertOne_button s it = Disabled \<longleftrightarrow> pngUrl it = [] \<and> status it = Converting)
   \<and> (convertOne_button s it = Enabled \<longleftrightarrow> pngUrl it = [] \<and> status it \<noteq> Converting)
   \<and> convertOne_button (s\<lparr>isConvertingAll := b\<rparr>) it = convertOne_button s it
   \<and> (\<forall>x \<in> set (files (convertOne_begin i s)).
         id_it x = i \<longrightarrow> status x = Converting \<and> convertOne_button (convertOne_begin i s) x \<noteq> Enabled)"
proof -
  have 1: "isConvertingAll s \<and> files s \<noteq> [] \<longrightarrow> convertAll_button s = Disabled"
    by (simp add: convertAll_button_def anySelected_def)
  have 2: "files s = [] \<longrightarrow> convertAll_button s = Hidden"
    by (simp add: convertAll_button_def anySelected_def)
  have 3: "convertOne_button s it = Hidden \<longleftrightarrow> pngUrl it \<noteq> []"
    "convertOne_button s it = Disabled \<longleftrightarrow> pngUrl it = [] \<and> status it = Converting"
    "convertOne_button s it = Enabled \<longleftrightarrow> pngUrl it = [] \<and> status it \<noteq> Converting"
    "convertOne_button (s\<lparr>isConvertingAll := b\<rparr>) it = convertOne_button s it"
    by (simp_all add: convertOne_button_def)
  have 4: "\<forall>x \<in> set (files (convertOne_begin i s)).
         id_it x = i \<longrightarrow> status x = Converting \<and> convertOne_button (convertOne_begin i s) x \<noteq> Enabled"
  proof (intro ballI impI)
    fix x assume "x \<in> set (files (convertOne_begin i s))" "id_it x = i"
    then have "status x = Converting" by (rule convertOne_begin_status)
    then show "status x = Converting \<and> convertOne_button (convertOne_begin i s) x \<noteq> Enabled"
      by (simp add: convertOne_button_def)
  qed
  from 1 2 3 4 show ?thesis by blast
qed


text \<open>During a batch run over five items, while the first is being converted, the
  Convert buttons of the other four are enabled, and so is Convert and Download All.\<close>

theorem triggers_during_batch_counterexample:
  "isConvertingAll s_batch
   \<and> map status (files s_batch) = [Converting, Idle, Idle, Idle, Idle]
   \<and> map (convertOne_button s_batch) (files s_batch) = [Disabled, Enabled, Enabled, Enabled, Enabled]
   \<and> convertAndDownload_button s_batch = Enabled"
  by (simp add: s_batch_def s_five_eq item0_def convertOne_begin_def convertOne_button_def
        convertAndDownload_button_def anySelected_def allConverted_def)

theorem triggers_during_batch_witness:
  "isConvertingAll s_batch \<and> files s_batch \<noteq> [] \<and> convertAll_button s_batch = Disabled
   \<and> hd (files s_batch) \<in> set (files (convertOne_begin ''a.jpg-204800-17-r0'' (s_five\<lparr>isConvertingAll := True\<rparr>)))
   \<and> id_it (hd (files s_batch)) = ''a.jpg-204800-17-r0''
   \<and> status (hd (files s_batch)) = Converting
   \<and> convertOne_button s_batch (hd (files s_batch)) = Disabled
   \<and> convertOne_button s_batch (files s_batch ! 1) = Enabled"
proof -
  let ?i = "''a.jpg-204800-17-r0''"
  have a: "isConvertingAll s_batch" "files s_batch \<noteq> []"
    "hd (files s_batch) \<in> set (files s_batch)" "id_it (hd (files s_batch)) = ?i"
    "pngUrl (hd (files s_batch)) = []"
    "pngUrl (files s_batch ! 1) = []" "status (files s_batch ! 1) \<noteq> Converting"
    by (simp_all add: s_batch_def s_five_eq item0_def convertOne_begin_def)
  note T = triggers_during_batch[where s=s_batch and i="?i"]
  have 1: "convertAll_button s_batch = Disabled"
    using T[where it="hd (files s_batch)", THEN conjunct1] a by simp
  have st: "status (hd (files s_batch)) = Converting"
    using triggers_during_batch[where s="s_five\<lparr>isConvertingAll := True\<rparr>" and i="?i",
        THEN conjunct2, THEN conjunct2, THEN conjunct2, THEN conjunct2, THEN conjunct2, THEN conjunct2]
      a(3,4) unfolding s_batch_def by blast
  have 2: "convertOne_button s_batch (hd (files s_batch)) = Disabled"
    using T[where it="hd (files s_batch)", THEN conjunct2, THEN conjunct2, THEN conjunct2, THEN conjunct1]
      a(5) st by simp
  have 3: "convertOne_button s_batch (files s_batch ! 1) = Enabled"
    using T[where it="files s_batch ! 1", THEN conjunct2, THEN conjunct2, THEN conjunct2, THEN conjunct2, THEN conjunct1]
      a(6,7) by simp
  from a 1 st 2 3 show ?thesis unfolding s_batch_def by blast
qed

subsection \<open>Archive entry names\<close>

lemma s_webp_done_eq:
  "s_webp_done = init\<lparr>files := [(item0 ''photo.jpg-204800-17-r0'' photo ''blob:0'')
                             \<lparr>pngUrl := ''blob:1'', status := Done, width := 1600, height := 1200\<rparr>],
                 outputFormat := Webp,
                 objects := [(''blob:0'', FileBlob photo),
                             (''blob:1'', ImageBlob ''image/webp'' (Some (8106479329266893 / 9007199254740992)) 1600 1200)],
                 url_count := 2, rand_count := 1, canvases := [(1600, 1200)]\<rparr>"
  unfolding s_webp_done_def s_webp_def s_one_eq
  by (simp add: item0_def convert_defs str_defs Let_def resolveTarget_def init_def photo_def
        jpeg_file_def fl_quality)

text \<open>
  Claim C4.  With WebP selected, the archive entry of \<open>photo.jpg\<close> holds the WebP bytes
  under the name \<open>png/photo.png\<close>, while the item's own download link is named
  \<open>photo.webp\<close>: the entry name ends in the constant \<open>.png\<close>, not in the extension of the
  selected format.
\<close>

theorem archive_entry_named_png:
  "outputFormat s_webp_done = Webp
   \<and> zip_entries s_webp_done s_webp_done (files s_webp_done) []
       = Inr [(''png/photo.png'',
               ImageBlob ''image/webp'' (Some (8106479329266893 / 9007199254740992)) 1600 1200)]
   \<and> map (downloadName s_webp_done) (files s_webp_done) = [''photo.webp'']"
  unfolding s_webp_done_eq
  by (simp add: item0_def zip_entry_name_def downloadName_def stem_of_def ext_of_def regex_defs
        photo_def jpeg_file_def init_def)

section \<open>Batch Orchestrator\<close>

lemma upd_by_id_comp:
  assumes "\<And>it. id_it (g it) = id_it it"
  shows "upd_by_id i h (upd_by_id i g xs) = upd_by_id i (\<lambda>it. h (g it)) xs"
  by (simp add: upd_by_id_def assms)

lemma load_image_cong:
  "map_of (objects t) u = map_of (objects t') u \<Longrightarrow> load_image t u = load_image t' u"
  by (simp add: load_image_def)

lemma convertOne_begin_objects [simp]: "objects (convertOne_begin i t) = objects t"
  by (simp add: convertOne_begin_def)

lemma convertItem_isl:
  "isl (fst (convertItem e snap x t)) \<longleftrightarrow>
     (case load_image t (previewUrl x) of
        None \<Rightarrow> True
      | Some (w, h) \<Rightarrow> \<not> toBlob e (fst (resolveTarget snap w h)) (snd (resolveTarget snap w h))
                           (mime_of (outputFormat snap)) (quality_arg snap))"
  by (simp add: convertItem_def Let_def case_prod_beta createObjectURL_def split: option.splits)

lemma convertItem_isl_cong:
  "map_of (objects t) (previewUrl x) = map_of (objects t') (previewUrl x) \<Longrightarrow>
     isl (fst (convertItem e snap x t)) = isl (fst (convertItem e snap x t'))"
  by (simp add: convertItem_isl load_image_cong[of t _ t'])

lemma convertOne_found:
  assumes "find (\<lambda>f. id_it f = i) (files snap) = Some x"
  shows "\<exists>g ex. files (convertOne e snap i t) = upd_by_id i g (files t)
           \<and> objects (convertOne e snap i t) = objects t @ ex
           \<and> (\<forall>it. id_it (g it) = id_it it
                 \<and> (if isl (fst (convertItem e snap x t))
                    then status (g it) = Error \<and> error_it (g it) = ''Failed to convert''
                         \<and> pngUrl (g it) = pngUrl it
                    else status (g it) = Done \<and> pngUrl (g it) \<noteq> [] \<and> error_it (g it) = []))"
proof -
  have ix: "id_it x = i" using assms by (rule find_id_Some)
  let ?b = "convertOne_begin i t"
  have li: "load_image ?b (previewUrl x) = load_image t (previewUrl x)"
    by (simp add: load_image_def)
  show ?thesis
  proof (cases "load_image t (previewUrl x)")
    case None
    have "files (convertOne e snap i t)
        = upd_by_id i (\<lambda>it. it\<lparr>status := Error, error_it := ''Failed to convert''\<rparr>) (files t)
        \<and> objects (convertOne e snap i t) = objects t @ []"
      using None li by (simp add: convertOne_def assms convertItem_def upd_by_id_def convertOne_begin_def)
    moreover have "isl (fst (convertItem e snap x t))" using None by (simp add: convertItem_isl)
    ultimately show ?thesis by (intro exI[of _ "\<lambda>it. it\<lparr>status := Error, error_it := ''Failed to convert''\<rparr>"] exI[of _ "[]"]) simp
  next
    case (Some wh)
    obtain w h where wh: "wh = (w, h)" by (cases wh)
    obtain tw th where r: "resolveTarget snap w h = (tw, th)" by (cases "resolveTarget snap w h")
    show ?thesis
    proof (cases "toBlob e tw th (mime_of (outputFormat snap)) (quality_arg snap)")
      case False
      let ?g = "\<lambda>it. it\<lparr>width := w, height := h, status := Error, error_it := ''Failed to convert''\<rparr>"
      have "files (convertOne e snap i t) = upd_by_id i ?g (files t)
        \<and> objects (convertOne e snap i t) = objects t @ []"
        using Some wh r False li ix
        by (simp add: convertOne_def assms convertItem_def upd_by_id_def convertOne_begin_def Let_def)
      moreover have "isl (fst (convertItem e snap x t))"
        using Some wh r False by (simp add: convertItem_isl)
      ultimately show ?thesis by (intro exI[of _ ?g] exI[of _ "[]"]) simp
    next
      case True
      let ?u = "''blob:'' @ string_of_nat (url_count t)"
      let ?g = "\<lambda>it. it\<lparr>width := w, height := h, pngUrl := ?u, status := Done, error_it := []\<rparr>"
      have "files (convertOne e snap i t) = upd_by_id i ?g (files t)
        \<and> objects (convertOne e snap i t)
            = objects t @ [(?u, ImageBlob (mime_of (outputFormat snap)) (quality_arg snap) tw th)]"
        using Some wh r True li ix
        by (simp add: convertOne_def assms convertItem_def upd_by_id_def convertOne_begin_def Let_def
              createObjectURL_def)
      moreover have "\<not> isl (fst (convertItem e snap x t))"
        using Some wh r True by (simp add: convertItem_isl)
      ultimately show ?thesis
        by (intro exI[of _ ?g] exI[of _ "[(?u, ImageBlob (mime_of (outputFormat snap)) (quality_arg snap) tw th)]"]) simp
    qed
  qed
qed


lemma map_of_append_stable:
  "map_of xs k = Some v \<Longrightarrow> map_of (xs @ ys) k = Some v"
  by (simp add: map_add_Some_iff)

lemma batch_step_found:
  assumes "find (\<lambda>f. id_it f = id_it x) (files snap) = Some x"
  shows "\<exists>g ex. files (batch_step e snap x t)
              = map (\<lambda>a. if pngUrl x = [] \<and> id_it a = id_it x then g a else a) (files t)
           \<and> objects (batch_step e snap x t) = objects t @ ex
           \<and> (\<forall>it. id_it (g it) = id_it it
                 \<and> (if isl (fst (convertItem e snap x t))
                    then status (g it) = Error \<and> error_it (g it) = ''Failed to convert''
                         \<and> pngUrl (g it) = pngUrl it
                    else status (g it) = Done \<and> pngUrl (g it) \<noteq> [] \<and> error_it (g it) = []))"
proof (cases "pngUrl x = []")
  case True
  from convertOne_found[OF assms, of e t] obtain g ex where
    "files (convertOne e snap (id_it x) t) = upd_by_id (id_it x) g (files t)"
    "objects (convertOne e snap (id_it x) t) = objects t @ ex"
    "\<forall>it. id_it (g it) = id_it it
                 \<and> (if isl (fst (convertItem e snap x t))
                    then status (g it) = Error \<and> error_it (g it) = ''Failed to convert''
                         \<and> pngUrl (g it) = pngUrl it
                    else status (g it) = Done \<and> pngUrl (g it) \<noteq> [] \<and> error_it (g it) = [])"
    by blast
  then show ?thesis using True
    by (intro exI[of _ g] exI[of _ ex]) (simp add: batch_step_def upd_by_id_def)
next
  case False
  obtain g where g: "files (convertOne e snap (id_it x) t) = upd_by_id (id_it x) g (files t)"
    "\<forall>it. id_it (g it) = id_it it
                 \<and> (if isl (fst (convertItem e snap x t))
                    then status (g it) = Error \<and> error_it (g it) = ''Failed to convert''
                         \<and> pngUrl (g it) = pngUrl it
                    else status (g it) = Done \<and> pngUrl (g it) \<noteq> [] \<and> error_it (g it) = [])"
    using convertOne_found[OF assms, of e t] by blast
  show ?thesis using False g(2)
    by (intro exI[of _ g] exI[of _ "[]"]) (simp add: batch_step_def)
qed

lemma batch_rel_step:
  assumes d: "id_it x \<notin> id_it ` set xs"
    and g: "id_it (g a) = id_it a"
      "if F x then status (g a) = Error \<and> error_it (g a) = ''Failed to convert'' \<and> pngUrl (g a) = pngUrl a
       else status (g a) = Done \<and> pngUrl (g a) \<noteq> [] \<and> error_it (g a) = []"
    and a1: "a1 = (if pngUrl x = [] \<and> id_it a = id_it x then g a else a)"
    and q: "batch_rel F xs a1 b"
  shows "batch_rel F (x # xs) a b"
proof -
  from d have dx: "\<And>y. y \<in> set xs \<Longrightarrow> id_it y \<noteq> id_it x" by (metis imageI)
  show ?thesis
  proof (cases "pngUrl x = [] \<and> id_it a = id_it x")
    case True
    then have a1g: "a1 = g a" using a1 by simp
    have ia: "id_it a1 = id_it x" using a1g g(1) True by simp
    have "\<forall>y \<in> set xs. id_it y = id_it a1 \<longrightarrow> pngUrl y \<noteq> []" using dx ia by metis
    then have b: "b = g a" using q a1g unfolding batch_rel_def by blast
    have 1: "id_it b = id_it a" using b g(1) by simp
    have 2: "\<forall>y \<in> set (x # xs). id_it y = id_it a \<and> pngUrl y = [] \<longrightarrow>
            (if F y then status b = Error \<and> error_it b = ''Failed to convert'' \<and> pngUrl b = pngUrl a
             else status b = Done \<and> pngUrl b \<noteq> [] \<and> error_it b = [])"
    proof (intro ballI impI)
      fix y assume y: "y \<in> set (x # xs)" "id_it y = id_it a \<and> pngUrl y = []"
      have "y = x"
      proof (rule ccontr)
        assume "y \<noteq> x"
        with y(1) have "y \<in> set xs" by simp
        from dx[OF this] y(2) True show False by simp
      qed
      then show "if F y then status b = Error \<and> error_it b = ''Failed to convert'' \<and> pngUrl b = pngUrl a
             else status b = Done \<and> pngUrl b \<noteq> [] \<and> error_it b = []"
        using g(2) b by simp
    qed
    have 3: "(\<forall>y \<in> set (x # xs). id_it y = id_it a \<longrightarrow> pngUrl y \<noteq> []) \<longrightarrow> b = a"
      using True by simp
    from 1 2 3 show ?thesis unfolding batch_rel_def by blast
  next
    case False
    have a1a: "a1 = a" unfolding a1 using False by (rule if_not_P)
    have 1: "id_it b = id_it a" using q unfolding batch_rel_def a1a by blast
    have 2: "\<forall>y \<in> set (x # xs). id_it y = id_it a \<and> pngUrl y = [] \<longrightarrow>
            (if F y then status b = Error \<and> error_it b = ''Failed to convert'' \<and> pngUrl b = pngUrl a
             else status b = Done \<and> pngUrl b \<noteq> [] \<and> error_it b = [])"
    proof (intro ballI impI)
      fix y assume y: "y \<in> set (x # xs)" "id_it y = id_it a \<and> pngUrl y = []"
      have "y \<noteq> x" using False y(2) by auto
      with y have "y \<in> set xs" by simp
      with y(2) q show "if F y then status b = Error \<and> error_it b = ''Failed to convert'' \<and> pngUrl b = pngUrl a
             else status b = Done \<and> pngUrl b \<noteq> [] \<and> error_it b = []"
        unfolding batch_rel_def a1a by blast
    qed
    have 3: "(\<forall>y \<in> set (x # xs). id_it y = id_it a \<longrightarrow> pngUrl y \<noteq> []) \<longrightarrow> b = a"
      using q unfolding batch_rel_def a1a by simp
    from 1 2 3 show ?thesis unfolding batch_rel_def by blast
  qed
qed


lemma batch_fold:
  assumes "distinct (map id_it xs)"
    and "\<forall>x \<in> set xs. find (\<lambda>f. id_it f = id_it x) (files snap) = Some x"
    and "\<forall>x \<in> set xs. \<exists>v. map_of (objects t) (previewUrl x) = Some v
                              \<and> map_of (objects s0) (previewUrl x) = Some v"
  shows "list_all2 (batch_rel (\<lambda>x. isl (fst (convertItem e snap x s0))) xs)
           (files t) (files (fold (batch_step e snap) xs t))"
  using assms
proof (induction xs arbitrary: t)
  case Nil
  show ?case by (simp add: list_all2_same batch_rel_def)
next
  case (Cons x xs)
  let ?F = "\<lambda>x. isl (fst (convertItem e snap x s0))"
  let ?t1 = "batch_step e snap x t"
  have d: "id_it x \<notin> id_it ` set xs" and dxs: "distinct (map id_it xs)"
    using Cons.prems(1) by simp_all
  have fx: "find (\<lambda>f. id_it f = id_it x) (files snap) = Some x" using Cons.prems(2) by simp
  from batch_step_found[OF fx, of e t] obtain g ex where
    f1: "files ?t1 = map (\<lambda>a. if pngUrl x = [] \<and> id_it a = id_it x then g a else a) (files t)"
    and o1: "objects ?t1 = objects t @ ex"
    and g: "\<forall>it. id_it (g it) = id_it it
                 \<and> (if isl (fst (convertItem e snap x t))
                    then status (g it) = Error \<and> error_it (g it) = ''Failed to convert''
                         \<and> pngUrl (g it) = pngUrl it
                    else status (g it) = Done \<and> pngUrl (g it) \<noteq> [] \<and> error_it (g it) = [])"
    by blast
  have "map_of (objects t) (previewUrl x) = map_of (objects s0) (previewUrl x)"
    using Cons.prems(3) by auto
  then have Fx: "isl (fst (convertItem e snap x t)) = ?F x" by (rule convertItem_isl_cong)
  have st: "\<forall>y \<in> set xs. \<exists>v. map_of (objects ?t1) (previewUrl y) = Some v
                              \<and> map_of (objects s0) (previewUrl y) = Some v"
  proof
    fix y assume "y \<in> set xs"
    with Cons.prems(3) obtain v where v: "map_of (objects t) (previewUrl y) = Some v"
      "map_of (objects s0) (previewUrl y) = Some v" by auto
    from map_of_append_stable[OF v(1), of ex] v(2) o1
    show "\<exists>v. map_of (objects ?t1) (previewUrl y) = Some v
                              \<and> map_of (objects s0) (previewUrl y) = Some v" by simp
  qed
  have fxs: "\<forall>y \<in> set xs. find (\<lambda>f. id_it f = id_it y) (files snap) = Some y"
    using Cons.prems(2) by simp
  have ih: "list_all2 (batch_rel ?F xs) (files ?t1) (files (fold (batch_step e snap) xs ?t1))"
    by (rule Cons.IH[OF dxs fxs st])
  have p: "list_all2 (\<lambda>a a1. a1 = (if pngUrl x = [] \<and> id_it a = id_it x then g a else a))
             (files t) (files ?t1)"
    unfolding f1 by (simp add: list_all2_map2 list_all2_same)
  have "list_all2 (batch_rel ?F (x # xs)) (files t) (files (fold (batch_step e snap) xs ?t1))"
  proof (rule list_all2_trans[OF _ p ih])
    fix a a1 b
    assume a1: "a1 = (if pngUrl x = [] \<and> id_it a = id_it x then g a else a)"
      and q: "batch_rel ?F xs a1 b"
    have g1: "id_it (g a) = id_it a" using g by blast
    have g2: "if ?F x then status (g a) = Error \<and> error_it (g a) = ''Failed to convert'' \<and> pngUrl (g a) = pngUrl a
       else status (g a) = Done \<and> pngUrl (g a) \<noteq> [] \<and> error_it (g a) = []"
      using g Fx by metis
    show "batch_rel ?F (x # xs) a b" by (rule batch_rel_step[where F="?F" and g=g, OF d g1 g2 a1 q])
  qed
  then show ?case by simp
qed


lemma find_distinct_id:
  assumes "distinct (map id_it xs)" "x \<in> set xs"
  shows "find (\<lambda>f. id_it f = id_it x) xs = Some x"
  using assms
proof (induction xs)
  case Nil
  then show ?case by simp
next
  case (Cons a xs)
  show ?case
  proof (cases "a = x")
    case True
    then show ?thesis by simp
  next
    case False
    with Cons.prems have x: "x \<in> set xs" by simp
    then have "id_it a \<noteq> id_it x" using Cons.prems(1) by (metis distinct.simps(2) imageI list.simps(9) set_map)
    with Cons.IH x Cons.prems(1) show ?thesis by simp
  qed
qed

lemma same_id_same_item:
  assumes "distinct (map id_it xs)" "x \<in> set xs" "a \<in> set xs" "id_it x = id_it a"
  shows "x = a"
  using assms by (meson distinct_map inj_onD)

lemma list_all2_mem:
  "list_all2 P xs ys \<Longrightarrow> list_all2 (\<lambda>a b. a \<in> set xs \<and> P a b) xs ys"
  by (simp add: list_all2_conv_all_nth)

lemma batch_result_count:
  "list_all2 (batch_result e s) xs ys \<Longrightarrow>
     length (filter (\<lambda>b. pngUrl b \<noteq> []) ys)
       = length (filter (\<lambda>a. pngUrl a \<noteq> [] \<or> \<not> conversion_fails e s a) xs)"
proof (induction rule: list_all2_induct)
  case Nil
  show ?case by simp
next
  case (Cons a as b bs)
  have "(pngUrl b \<noteq> []) = (pngUrl a \<noteq> [] \<or> \<not> conversion_fails e s a)"
    using Cons.hyps(1) unfolding batch_result_def by (cases "pngUrl a = []"; cases "conversion_fails e s a") simp_all
  with Cons.IH show ?case by simp
qed

text \<open>
  Claim C5.  A batch run started from the rendered page, on a store whose ids are distinct
  and whose previews are still in the URL store, visits every item: an item that already
  had an output is left as it was; an item whose own conversion fails (in decoding or in
  encoding) ends with status error, the message \<open>Failed to convert\<close> and no output; every
  other item ends with status done and an output, wherever the failures are.  The
  completed-item counter is the number of items that had an output or whose conversion
  does not fail.
\<close>

theorem batch_failure_is_local:
  assumes "distinct (map id_it (files s))"
    and "\<forall>it \<in> set (files s). previewUrl it \<in> fst ` set (objects s)"
  shows "list_all2 (batch_result e s) (files s) (files (convertAll e s s))
       \<and> convertedCount (convertAll e s s)
           = length (filter (\<lambda>a. pngUrl a \<noteq> [] \<or> \<not> conversion_fails e s a) (files s))"
proof -
  let ?t = "s\<lparr>isConvertingAll := True\<rparr>"
  let ?F = "\<lambda>x. isl (fst (convertItem e s x s))"
  have fb: "files (convertAll e s s) = files (fold (batch_step e s) (files s) ?t)"
  proof (cases "files s = []")
    case True
    then show ?thesis by (simp add: convertAll_def)
  next
    case False
    have "(\<lambda>it t. if pngUrl it = [] then convertOne e s (id_it it) t else t) = batch_step e s"
      by (intro ext) (simp add: batch_step_def)
    then show ?thesis using False by (simp add: convertAll_def)
  qed
  have b: "\<forall>x \<in> set (files s). find (\<lambda>f. id_it f = id_it x) (files s) = Some x"
    using find_distinct_id[OF assms(1)] by blast
  have c: "\<forall>x \<in> set (files s). \<exists>v. map_of (objects ?t) (previewUrl x) = Some v
                              \<and> map_of (objects s) (previewUrl x) = Some v"
  proof
    fix x assume "x \<in> set (files s)"
    with assms(2) have "previewUrl x \<in> fst ` set (objects s)" by blast
    then obtain v where "map_of (objects s) (previewUrl x) = Some v"
      by (metis map_of_eq_None_iff not_Some_eq)
    then show "\<exists>v. map_of (objects ?t) (previewUrl x) = Some v
                              \<and> map_of (objects s) (previewUrl x) = Some v" by simp
  qed
  have "list_all2 (batch_rel ?F (files s)) (files ?t) (files (fold (batch_step e s) (files s) ?t))"
    by (rule batch_fold[OF assms(1) b c])
  then have "list_all2 (batch_rel ?F (files s)) (files s) (files (convertAll e s s))"
    by (simp add: fb)
  then have "list_all2 (\<lambda>a b. a \<in> set (files s) \<and> batch_rel ?F (files s) a b)
               (files s) (files (convertAll e s s))"
    by (rule list_all2_mem)
  then have r: "list_all2 (batch_result e s) (files s) (files (convertAll e s s))"
  proof (rule list_all2_mono)
    fix a b assume ab: "a \<in> set (files s) \<and> batch_rel ?F (files s) a b"
    then have a: "a \<in> set (files s)" and rel: "batch_rel ?F (files s) a b" by simp_all
    have only: "x = a" if "x \<in> set (files s)" "id_it x = id_it a" for x
      using same_id_same_item[OF assms(1) that(1) a that(2)] .
    show "batch_result e s a b"
    proof (cases "pngUrl a = []")
      case True
      from rel a True have
        "if ?F a then status b = Error \<and> error_it b = ''Failed to convert'' \<and> pngUrl b = pngUrl a
         else status b = Done \<and> pngUrl b \<noteq> [] \<and> error_it b = []"
        unfolding batch_rel_def by blast
      moreover from rel have "id_it b = id_it a" unfolding batch_rel_def by blast
      ultimately show ?thesis using True by (simp add: batch_result_def conversion_fails_def)
    next
      case False
      have "\<forall>x \<in> set (files s). id_it x = id_it a \<longrightarrow> pngUrl x \<noteq> []"
        using only False by blast
      with rel have "b = a" unfolding batch_rel_def by blast
      then show ?thesis using False by (simp add: batch_result_def)
    qed
  qed
  from batch_result_count[OF r] r show ?thesis by (simp add: convertedCount_def)
qed


text \<open>The scenario: five items, the second does not decode; four of five are done.\<close>

lemma s_five_fails:
  "map (conversion_fails env0 s_five) (files s_five) = [False, True, False, False, False]"
  unfolding s_five_eq conversion_fails_def
  by (simp add: item0_def convertItem_isl load_image_def jpeg_file_def env0_def)

theorem batch_failure_is_local_witness:
  "distinct (map id_it (files s_five))
   \<and> map previewUrl (files s_five) = map fst (objects s_five)
   \<and> map status (files (convertAll env0 s_five s_five)) = [Done, Error, Done, Done, Done]
   \<and> length (files (convertAll env0 s_five s_five)) = 5
   \<and> convertedCount (convertAll env0 s_five s_five) = 4"
proof -
  have h1: "distinct (map id_it (files s_five))" by (simp add: s_five_eq item0_def)
  have h2: "\<forall>it \<in> set (files s_five). previewUrl it \<in> fst ` set (objects s_five)"
    by (simp add: s_five_eq item0_def)
  have p: "map pngUrl (files s_five) = [[], [], [], [], []]" by (simp add: s_five_eq item0_def)
  obtain a1 a2 a3 a4 a5 where fs: "files s_five = [a1, a2, a3, a4, a5]"
    by (simp add: s_five_eq)
  from batch_failure_is_local[OF h1 h2, of env0]
  have r: "list_all2 (batch_result env0 s_five) (files s_five) (files (convertAll env0 s_five s_five))"
    and c: "convertedCount (convertAll env0 s_five s_five)
           = length (filter (\<lambda>a. pngUrl a \<noteq> [] \<or> \<not> conversion_fails env0 s_five a) (files s_five))"
    by blast+
  from r obtain b1 b2 b3 b4 b5 where bs: "files (convertAll env0 s_five s_five) = [b1, b2, b3, b4, b5]"
    and rs: "batch_result env0 s_five a1 b1" "batch_result env0 s_five a2 b2"
      "batch_result env0 s_five a3 b3" "batch_result env0 s_five a4 b4" "batch_result env0 s_five a5 b5"
    unfolding fs by (auto simp: list_all2_Cons1)
  from s_five_fails p have f: "\<not> conversion_fails env0 s_five a1" "conversion_fails env0 s_five a2"
    "\<not> conversion_fails env0 s_five a3" "\<not> conversion_fails env0 s_five a4" "\<not> conversion_fails env0 s_five a5"
    and e: "pngUrl a1 = []" "pngUrl a2 = []" "pngUrl a3 = []" "pngUrl a4 = []" "pngUrl a5 = []"
    unfolding fs by simp_all
  from rs f e have st: "map status (files (convertAll env0 s_five s_five)) = [Done, Error, Done, Done, Done]"
    unfolding bs batch_result_def by simp
  have n: "convertedCount (convertAll env0 s_five s_five) = 4"
    unfolding c fs using f e by simp
  have h3: "map previewUrl (files s_five) = map fst (objects s_five)"
    by (simp add: s_five_eq item0_def)
  from h1 h3 st n bs show ?thesis by simp
qed

section \<open>Converting twice\<close>

lemma convertItem_canvases:
  "load_image t (previewUrl x) = Some (w, h) \<Longrightarrow>
     canvases (snd (convertItem e snap x t)) = canvases t @ [resolveTarget snap w h]"
  by (simp add: convertItem_def Let_def case_prod_beta createObjectURL_def)

lemma convertOne_canvases:
  assumes "find (\<lambda>f. id_it f = i) (files snap) = Some x"
    and "load_image t (previewUrl x) = Some (w, h)"
  shows "canvases (convertOne e snap i t) = canvases t @ [resolveTarget snap w h]"
proof -
  have l: "load_image (convertOne_begin i t) (previewUrl x) = Some (w, h)"
    using assms(2) by (simp add: load_image_def)
  have c: "canvases (convertOne_begin i t) = canvases t" by (simp add: convertOne_begin_def)
  obtain r s2 where rs: "convertItem e snap x (convertOne_begin i t) = (r, s2)"
    by (cases "convertItem e snap x (convertOne_begin i t)")
  from convertItem_canvases[OF l, of e snap] rs c
  have "canvases s2 = canvases t @ [resolveTarget snap w h]" by simp
  then show ?thesis by (cases r) (simp_all add: convertOne_def assms(1) rs)
qed

lemma convertItem_settings:
  "maxWidth (snd (convertItem e snap x t)) = maxWidth t
   \<and> maxHeight (snd (convertItem e snap x t)) = maxHeight t
   \<and> fitMode (snd (convertItem e snap x t)) = fitMode t
   \<and> keepAspect (snd (convertItem e snap x t)) = keepAspect t
   \<and> outputFormat (snd (convertItem e snap x t)) = outputFormat t
   \<and> quality (snd (convertItem e snap x t)) = quality t"
  by (simp add: convertItem_def Let_def case_prod_beta createObjectURL_def split: option.splits)

lemma convertOne_settings:
  "maxWidth (convertOne e snap i t) = maxWidth t
   \<and> maxHeight (convertOne e snap i t) = maxHeight t
   \<and> fitMode (convertOne e snap i t) = fitMode t
   \<and> keepAspect (convertOne e snap i t) = keepAspect t
   \<and> outputFormat (convertOne e snap i t) = outputFormat t
   \<and> quality (convertOne e snap i t) = quality t"
proof (cases "find (\<lambda>f. id_it f = i) (files snap)")
  case None
  then show ?thesis by (simp add: convertOne_def convertOne_begin_def)
next
  case (Some x)
  obtain r s2 where rs: "convertItem e snap x (convertOne_begin i t) = (r, s2)"
    by (cases "convertItem e snap x (convertOne_begin i t)")
  from convertItem_settings[of e snap x "convertOne_begin i t"] rs
  have "maxWidth s2 = maxWidth t \<and> maxHeight s2 = maxHeight t \<and> fitMode s2 = fitMode t
      \<and> keepAspect s2 = keepAspect t \<and> outputFormat s2 = outputFormat t \<and> quality s2 = quality t"
    by (simp add: convertOne_begin_def)
  then show ?thesis by (cases r) (simp_all add: convertOne_def Some rs)
qed

lemma resolveTarget_cong:
  "maxWidth a = maxWidth b \<Longrightarrow> maxHeight a = maxHeight b \<Longrightarrow> fitMode a = fitMode b \<Longrightarrow>
   keepAspect a = keepAspect b \<Longrightarrow> resolveTarget a w h = resolveTarget b w h"
  by (simp add: resolveTarget_def Let_def)

lemma map_if_proj:
  fixes xs :: "item list"
  assumes "\<And>it. id_it (g it) = id_it it" "\<And>it. previewUrl (g it) = previewUrl it"
  shows "map (\<lambda>it. (id_it it, previewUrl it)) (map (\<lambda>it. if id_it it = i then g it else it) xs)
       = map (\<lambda>it. (id_it it, previewUrl it)) xs"
  by (induction xs) (simp_all add: assms)

lemma convertOne_id_previewUrl:
  "map (\<lambda>it. (id_it it, previewUrl it)) (files (convertOne e snap i t))
     = map (\<lambda>it. (id_it it, previewUrl it)) (files t)"
proof -
  have b: "map (\<lambda>it. (id_it it, previewUrl it)) (files (convertOne_begin i t))
     = map (\<lambda>it. (id_it it, previewUrl it)) (files t)"
    unfolding convertOne_begin_def by (simp add: map_if_proj del: map_map)
  show ?thesis
  proof (cases "find (\<lambda>f. id_it f = i) (files snap)")
    case None
    then show ?thesis by (simp add: convertOne_def b)
  next
    case (Some x)
    obtain r s2 where rs: "convertItem e snap x (convertOne_begin i t) = (r, s2)"
      by (cases "convertItem e snap x (convertOne_begin i t)")
    have "files s2 = files (snd (convertItem e snap x (convertOne_begin i t)))" using rs by simp
    then have c: "map (\<lambda>it. (id_it it, previewUrl it)) (files s2)
        = map (\<lambda>it. (id_it it, previewUrl it)) (files t)"
      unfolding convertItem_files using b
      by (simp add: map_if_proj del: map_map split: option.splits)
    show ?thesis
      using c by (cases r) (simp_all add: convertOne_def Some rs map_if_proj del: map_map)
  qed
qed

lemma find_via_id_previewUrl:
  fixes xs ys :: "item list"
  assumes "map (\<lambda>it. (id_it it, previewUrl it)) ys = map (\<lambda>it. (id_it it, previewUrl it)) xs"
    and "find (\<lambda>f. id_it f = i) xs = Some x"
  shows "\<exists>y. find (\<lambda>f. id_it f = i) ys = Some y \<and> previewUrl y = previewUrl x"
  using assms
proof (induction xs arbitrary: ys)
  case Nil
  then show ?case by simp
next
  case (Cons a xs)
  from Cons.prems(1) obtain b bs where ys: "ys = b # bs" "id_it b = id_it a" "previewUrl b = previewUrl a"
    "map (\<lambda>it. (id_it it, previewUrl it)) bs = map (\<lambda>it. (id_it it, previewUrl it)) xs"
    by (cases ys) auto
  show ?case
  proof (cases "id_it a = i")
    case True
    with Cons.prems(2) have "a = x" by simp
    with True ys show ?thesis by simp
  next
    case False
    with Cons.prems(2) have "find (\<lambda>f. id_it f = i) xs = Some x" by simp
    from Cons.IH[OF ys(4) this] False ys show ?thesis by simp
  qed
qed

lemma load_image_append:
  assumes "load_image t u = Some d" "objects t' = objects t @ ex"
  shows "load_image t' u = Some d"
proof -
  from assms(1) obtain v where "map_of (objects t) u = Some v"
    by (cases "map_of (objects t) u") (simp_all add: load_image_def)
  then have "map_of (objects t') u = map_of (objects t) u"
    using map_of_append_stable[of "objects t" u v ex] assms(2) by simp
  then show ?thesis using assms(1) by (simp add: load_image_def)
qed

lemma convertOne_objects:
  "\<exists>ex. objects (convertOne e snap i t) = objects t @ ex"
proof (cases "find (\<lambda>f. id_it f = i) (files snap)")
  case None
  then show ?thesis by (simp add: convertOne_def)
next
  case (Some x)
  from convertOne_found[OF Some, of e t] show ?thesis by blast
qed

text \<open>
  Claim C8.  When an item of the rendered page decodes to \<open>w\<close> by \<open>h\<close>, converting it and
  then converting it again from the re-rendered page allocates two canvases of the same
  size, \<open>resolveTarget s w h\<close> for the settings \<open>s\<close> had at the start: a conversion changes
  no setting, keeps the item's preview and leaves it loadable.
\<close>

theorem reconversion_same_dimensions:
  assumes "find (\<lambda>f. id_it f = i) (files s) = Some x"
    and "load_image s (previewUrl x) = Some (w, h)"
  shows "canvases (convertOne e s i s) = canvases s @ [resolveTarget s w h]
       \<and> canvases (convertOne e (convertOne e s i s) i (convertOne e s i s))
           = canvases (convertOne e s i s) @ [resolveTarget s w h]"
proof -
  let ?s1 = "convertOne e s i s"
  have 1: "canvases ?s1 = canvases s @ [resolveTarget s w h]"
    by (rule convertOne_canvases[OF assms])
  from find_via_id_previewUrl[OF convertOne_id_previewUrl[where e=e and snap=s and i=i and t=s] assms(1)]
  obtain y where y: "find (\<lambda>f. id_it f = i) (files ?s1) = Some y" "previewUrl y = previewUrl x"
    by blast
  obtain ex where "objects ?s1 = objects s @ ex" using convertOne_objects by blast
  from load_image_append[OF assms(2) this] y(2)
  have l: "load_image ?s1 (previewUrl y) = Some (w, h)" by simp
  have "canvases (convertOne e ?s1 i ?s1) = canvases ?s1 @ [resolveTarget ?s1 w h]"
    by (rule convertOne_canvases[OF y(1) l])
  moreover have "resolveTarget ?s1 w h = resolveTarget s w h"
    using convertOne_settings[of e s i s] by (intro resolveTarget_cong) simp_all
  ultimately show ?thesis using 1 by simp
qed

theorem reconversion_same_dimensions_witness:
  "find (\<lambda>f. id_it f = ''photo.jpg-204800-17-r0'') (files s_one)
     = Some (item0 ''photo.jpg-204800-17-r0'' photo ''blob:0'')
   \<and> load_image s_one ''blob:0'' = Some (1600, 1200)
   \<and> canvases s_done = [(1600, 1200)]
   \<and> canvases (convertOne env0 s_done ''photo.jpg-204800-17-r0'' s_done) = [(1600, 1200), (1600, 1200)]"
proof -
  let ?x = "item0 ''photo.jpg-204800-17-r0'' photo ''blob:0''"
  have a: "find (\<lambda>f. id_it f = ''photo.jpg-204800-17-r0'') (files s_one) = Some ?x"
    by (simp add: s_one_eq item0_def)
  have b: "load_image s_one (previewUrl ?x) = Some (1600, 1200)"
    by (simp add: s_one_eq item0_def load_image_def photo_def jpeg_file_def)
  have c: "canvases s_one = []" "resolveTarget s_one 1600 1200 = (1600, 1200)"
    by (simp_all add: s_one_eq init_def resolveTarget_def)
  from reconversion_same_dimensions[OF a b, of env0] a b c show ?thesis
    by (simp add: s_done_def[symmetric] item0_def)
qed

end
